theory Spec2Isabelle
  imports Main "HOL-Library.Word"
begin

section \<open>Values of the host language\<close>

text \<open>
  The response handed to \<^verbatim>\<open>verifyAuthenticationResponse\<close> is a parsed JSON document.
  Its static type promises strings, but the function re-checks several fields at run
  time (\<^verbatim>\<open>!id\<close>, \<^verbatim>\<open>typeof ... !== 'string'\<close>), so the fields are modelled as
  dynamically typed values: the values \<^verbatim>\<open>JSON.parse\<close> produces (numbers restricted to
  the integers) together with \<^verbatim>\<open>undefined\<close>, the value of an absent property. An
  object is the list of its properties; a property is looked up by its first entry.
\<close>

datatype jsval =
    JUndefined
  | JNull
  | JBool bool
  | JNumber int
  | JString string
  | JArray "jsval list"
  | JObject "(string \<times> jsval) list"

text \<open>Truthiness, as \<^verbatim>\<open>if (v)\<close> and \<^verbatim>\<open>!v\<close> see it.\<close>

fun truthy :: "jsval \<Rightarrow> bool" where
  "truthy JUndefined = False"
| "truthy JNull = False"
| "truthy (JBool b) = b"
| "truthy (JNumber n) = (n \<noteq> 0)"
| "truthy (JString s) = (s \<noteq> [])"
| "truthy (JArray vs) = True"
| "truthy (JObject ps) = True"

text \<open>
  Strict equality \<^verbatim>\<open>===\<close>. Primitives are compared by value. Arrays and objects are
  compared by reference, and two properties of a parsed JSON document never hold the
  same reference, so such operands are never equal.
\<close>

fun strictEq :: "jsval \<Rightarrow> jsval \<Rightarrow> bool" where
  "strictEq JUndefined JUndefined = True"
| "strictEq JNull JNull = True"
| "strictEq (JBool a) (JBool b) = (a = b)"
| "strictEq (JNumber a) (JNumber b) = (a = b)"
| "strictEq (JString a) (JString b) = (a = b)"
| "strictEq _ _ = False"

text \<open>
  Reading a property \<^verbatim>\<open>v.name\<close> of a value that is neither \<^verbatim>\<open>null\<close> nor
  \<^verbatim>\<open>undefined\<close>, and \<^verbatim>\<open>v?.name\<close> of any value: an absent property reads as
  \<^verbatim>\<open>undefined\<close>. (None of the names read here is a built-in property of a string,
  number, boolean or array.)
\<close>

fun getProp :: "jsval \<Rightarrow> string \<Rightarrow> jsval" where
  "getProp (JObject ps) name = (case map_of ps name of Some v \<Rightarrow> v | None \<Rightarrow> JUndefined)"
| "getProp _ name = JUndefined"

fun nullish :: "jsval \<Rightarrow> bool" where
  "nullish JUndefined = True"
| "nullish JNull = True"
| "nullish _ = False"

text \<open>\<^verbatim>\<open>typeof v === 'string'\<close> and \<^verbatim>\<open>typeof v === 'object'\<close>.\<close>

fun typeofString :: "jsval \<Rightarrow> bool" where
  "typeofString (JString s) = True"
| "typeofString _ = False"

fun typeofObject :: "jsval \<Rightarrow> bool" where
  "typeofObject JNull = True"
| "typeofObject (JArray vs) = True"
| "typeofObject (JObject ps) = True"
| "typeofObject _ = False"

type_synonym bytes = "8 word list"

section \<open>Data model\<close>

text \<open>
  \<^verbatim>\<open>WebAuthnCredential\<close>, the caller-owned record of the credential. The function is
  given a reference to it. The record is extensible: whatever else the caller keeps in
  the object is the \<open>more\<close> part of the record.
\<close>

record WebAuthnCredential =
  credID :: string
  credPublicKey :: bytes
  credCounter :: int

text \<open>The decoded \<^verbatim>\<open>clientDataJSON\<close>: \<^verbatim>\<open>{ type, origin, challenge, tokenBinding }\<close>.\<close>

record ClientDataJSON =
  cdType :: string
  cdOrigin :: string
  cdChallenge :: string
  cdTokenBinding :: jsval

record flags =
  up :: bool
  uv :: bool
  be :: bool
  bs :: bool
  at :: bool
  ed :: bool

text \<open>
  The fields of the parsed authenticator data that the function destructures:
  \<^verbatim>\<open>{ rpIdHash, flags, counter, extensionsData }\<close>.
\<close>

record ParsedAuthenticatorData =
  rpIdHash :: bytes
  flags :: flags
  counter :: int
  extensionsData :: jsval

datatype CredentialDeviceType = SingleDevice | MultiDevice

datatype UserVerificationRequirement = Required | Preferred | Discouraged

record AdvancedFIDOConfig =
  userVerification :: "UserVerificationRequirement option"

text \<open>A parameter typed \<^verbatim>\<open>string | string[]\<close>.\<close>

datatype stringOrArray = One string | Many "string list"

text \<open>
  \<^verbatim>\<open>expectedChallenge\<close> is a string or a function of the challenge returning
  \<^verbatim>\<open>boolean | Promise<boolean>\<close>. The function is the caller's code: what it answers
  may depend on state that the caller keeps outside the call (the challenges issued and
  not yet used, a clock), and calling it may change that state. The state is a value of
  the host language; the function is given it and returns it as it leaves it. Awaiting
  the function's value yields a boolean, or the function throws (its promise rejects),
  or the promise never settles.
\<close>

datatype awaited = Resolves bool | Rejects string | NeverSettles

datatype expectedChallenge =
    Literal string
  | Verifier "string \<Rightarrow> jsval \<Rightarrow> awaited \<times> jsval"

text \<open>
  The \<^verbatim>\<open>options\<close> argument. An optional property is an \<open>option\<close>. The property
  \<^verbatim>\<open>credential\<close> is a reference to the caller's object, which lives in the heap below.
\<close>

record options =
  response :: jsval
  expectedChallenge :: expectedChallenge
  expectedOrigin :: stringOrArray
  expectedRPID :: stringOrArray
  expectedType :: "stringOrArray option"
  requireUserVerification :: "bool option"
  advancedFIDOConfig :: "AdvancedFIDOConfig option"

record authenticationInfo =
  newCounter :: int
  credentialID :: string
  userVerified :: bool
  credentialDeviceType :: CredentialDeviceType
  credentialBackedUp :: bool
  authenticatorExtensionResults :: jsval
  origin :: string
  rpID :: string

record VerifiedAuthenticationResponse =
  verified :: bool
  authenticationInfo :: authenticationInfo

section \<open>Errors, helper calls and the heap\<close>

text \<open>
  One constructor for each message the function throws, in source order, carrying the
  values the message interpolates:
  \<open>MissingCredentialID\<close> (line 65), \<open>CredentialIDNotBase64URL\<close> (line 70),
  \<open>UnexpectedCredentialType\<close> (line 75), \<open>CredentialMissingResponse\<close> (line 81),
  \<open>ClientDataJSONNotString\<close> (line 85), \<open>UnexpectedResponseTypeOneOf\<close> (line 96),
  \<open>UnexpectedResponseTypeExpected\<close> (line 102), \<open>UnexpectedResponseType\<close> (line 107),
  \<open>ChallengeVerifierReturnedFalse\<close> (line 113), \<open>UnexpectedChallenge\<close> (line 118),
  \<open>UnexpectedOriginOneOf\<close> (line 127), \<open>UnexpectedOrigin\<close> (line 133),
  \<open>AuthenticatorDataNotBase64URL\<close> (line 140), \<open>SignatureNotBase64URL\<close> (line 146),
  \<open>UserHandleNotString\<close> (line 153), \<open>TokenBindingNotObject\<close> (line 158),
  \<open>UnexpectedTokenBindingStatus\<close> (line 164), \<open>UserVerificationRequired\<close> (lines 193
  and 214, the same message), \<open>UserNotPresent\<close> (line 209) and \<open>CounterTooLow\<close>
  (line 235). \<open>TypeError\<close> is what destructuring \<^verbatim>\<open>null\<close> or \<^verbatim>\<open>undefined\<close>
  raises at line 61; \<open>HelperThrew\<close> is an exception raised inside a helper and
  \<open>VerifierRejected\<close> one raised by the caller's challenge verifier, both carrying the
  message.
\<close>

datatype error =
    TypeError
  | MissingCredentialID
  | CredentialIDNotBase64URL
  | UnexpectedCredentialType jsval
  | CredentialMissingResponse
  | ClientDataJSONNotString
  | UnexpectedResponseTypeOneOf string "string list"
  | UnexpectedResponseTypeExpected string string
  | UnexpectedResponseType string
  | ChallengeVerifierReturnedFalse string
  | UnexpectedChallenge string string
  | UnexpectedOriginOneOf string "string list"
  | UnexpectedOrigin string string
  | AuthenticatorDataNotBase64URL
  | SignatureNotBase64URL
  | UserHandleNotString
  | TokenBindingNotObject
  | UnexpectedTokenBindingStatus jsval
  | UserVerificationRequired
  | UserNotPresent
  | CounterTooLow int int
  | HelperThrew string
  | VerifierRejected string

text \<open>
  The helpers the function imports are defined in other modules of the package; here
  they are parameters. Following the specification (sections 4.1 to 4.6 and 5) they
  are pure; a helper that can raise an exception returns the message of the exception.
  \<open>isBase64URL\<close> and \<open>toBuffer\<close> receive whatever value the response holds, a string
  or not: the function calls them at lines 139, 145, 168 and 225 without a check of its
  own, so what they do with a value that is not a string (answer, or raise) is theirs.
\<close>

record helpers =
  decodeClientDataJSON :: "string \<Rightarrow> string + ClientDataJSON"
  isBase64URL :: "jsval \<Rightarrow> string + bool"
  toBuffer :: "jsval \<Rightarrow> string + bytes"
  parseAuthenticatorData :: "bytes \<Rightarrow> string + ParsedAuthenticatorData"
  matchExpectedRPID :: "bytes \<Rightarrow> string list \<Rightarrow> string + string"
  toHash :: "bytes \<Rightarrow> bytes"
  parseBackupFlags :: "flags \<Rightarrow> string + CredentialDeviceType \<times> bool"
  verifySignature :: "bytes \<Rightarrow> bytes \<Rightarrow> bytes \<Rightarrow> string + bool"

text \<open>The calls the function makes, with their arguments, as they are logged.\<close>

datatype call =
    Call_decodeClientDataJSON string
  | Call_expectedChallenge string
  | Call_isBase64URL jsval
  | Call_toBuffer jsval
  | Call_parseAuthenticatorData bytes
  | Call_matchExpectedRPID bytes "string list"
  | Call_toHash bytes
  | Call_parseBackupFlags flags
  | Call_verifySignature bytes bytes bytes

text \<open>
  The state a call runs in: the caller's credential object, the log of the calls made
  so far, oldest first, and the state the caller's code keeps outside the call.
\<close>

record 'z heap =
  credential :: "'z WebAuthnCredential_scheme"
  calls :: "call list"
  callerState :: jsval

text \<open>
  A computation takes the heap and gives the heap it leaves together with its outcome:
  \<open>None\<close> when it never settles, \<open>Some (Inl e)\<close> when it throws \<open>e\<close>, \<open>Some (Inr a)\<close>
  when it yields \<open>a\<close>.
\<close>

type_synonym ('z, 'a) js = "'z heap \<Rightarrow> (error + 'a) option \<times> 'z heap"

definition throw :: "error \<Rightarrow> ('z, 'a) js" where
  "throw e = (\<lambda>h. (Some (Inl e), h))"

definition ret :: "'a \<Rightarrow> ('z, 'a) js" where
  "ret a = (\<lambda>h. (Some (Inr a), h))"

definition andThen :: "('z, 'a) js \<Rightarrow> ('a \<Rightarrow> ('z, 'b) js) \<Rightarrow> ('z, 'b) js" where
  "andThen m f = (\<lambda>h. case m h of
       (Some (Inr a), h') \<Rightarrow> f a h'
     | (Some (Inl e), h') \<Rightarrow> (Some (Inl e), h')
     | (None, h') \<Rightarrow> (None, h'))"

definition throwIf :: "bool \<Rightarrow> error \<Rightarrow> ('z, unit) js" where
  "throwIf b e = (if b then throw e else ret ())"

text \<open>Calling a helper that cannot fail, and one that can: the call is logged.\<close>

definition invoke :: "call \<Rightarrow> 'a \<Rightarrow> ('z, 'a) js" where
  "invoke c v = (\<lambda>h. (Some (Inr v), h\<lparr>calls := calls h @ [c]\<rparr>))"

definition invokeE :: "call \<Rightarrow> string + 'a \<Rightarrow> ('z, 'a) js" where
  "invokeE c r = (\<lambda>h. (case r of Inl m \<Rightarrow> Some (Inl (HelperThrew m)) | Inr v \<Rightarrow> Some (Inr v),
                        h\<lparr>calls := calls h @ [c]\<rparr>))"

text \<open>
  \<^verbatim>\<open>await expectedChallenge(challenge)\<close>: the caller's function runs in the
  caller's state and leaves it changed.
\<close>

definition await ::
  "(string \<Rightarrow> jsval \<Rightarrow> awaited \<times> jsval) \<Rightarrow> string \<Rightarrow> ('z, bool) js" where
  "await p challenge = (\<lambda>h. (case fst (p challenge (callerState h)) of
         Resolves b \<Rightarrow> Some (Inr b)
       | Rejects m \<Rightarrow> Some (Inl (VerifierRejected m))
       | NeverSettles \<Rightarrow> None,
     h\<lparr>calls := calls h @ [Call_expectedChallenge challenge],
       callerState := snd (p challenge (callerState h))\<rparr>))"

text \<open>Reading a field of the caller's credential object.\<close>

definition readCredential :: "('z WebAuthnCredential_scheme \<Rightarrow> 'a) \<Rightarrow> ('z, 'a) js" where
  "readCredential field = (\<lambda>h. (Some (Inr (field (credential h))), h))"

section \<open>The function\<close>

text \<open>
  The body of \<^verbatim>\<open>verifyAuthenticationResponse\<close> is one sequence of checks. It is
  transcribed in source order, cut into named pieces at the checks the properties below
  speak of; every piece is a contiguous range of source lines.
\<close>

text \<open>
  Lines 61 to 86. Destructuring \<^verbatim>\<open>response\<close> raises a \<open>TypeError\<close> when it is
  \<^verbatim>\<open>null\<close> or \<^verbatim>\<open>undefined\<close>. Yields \<^verbatim>\<open>assertionResponse\<close> and the string
  \<^verbatim>\<open>assertionResponse.clientDataJSON\<close>.
\<close>

definition checkCredential :: "jsval \<Rightarrow> ('z, jsval \<times> string) js" where
  "checkCredential response' =
    (if nullish response' then throw TypeError
     else
       let id' = getProp response' ''id'';
           rawId = getProp response' ''rawId'';
           credentialType = getProp response' ''type'';
           assertionResponse' = getProp response' ''response''
       in
         if \<not> truthy id' then throw MissingCredentialID
         else if \<not> strictEq id' rawId then throw CredentialIDNotBase64URL
         else if \<not> strictEq credentialType (JString ''public-key'')
           then throw (UnexpectedCredentialType credentialType)
         else if \<not> truthy response' then throw CredentialMissingResponse
         else (case getProp assertionResponse' ''clientDataJSON'' of
                 JString cdj \<Rightarrow> ret (assertionResponse', cdj)
               | _ \<Rightarrow> throw ClientDataJSONNotString))"

text \<open>Lines 92 to 108: the type of the ceremony.\<close>

definition checkType :: "stringOrArray option \<Rightarrow> string \<Rightarrow> ('z, unit) js" where
  "checkType expectedType' type' =
    (case expectedType' of
       Some (Many ts) \<Rightarrow> throwIf (type' \<notin> set ts) (UnexpectedResponseTypeOneOf type' ts)
     | Some (One t) \<Rightarrow>
         if t \<noteq> [] then throwIf (type' \<noteq> t) (UnexpectedResponseTypeExpected type' t)
         else throwIf (type' \<noteq> ''webauthn.get'') (UnexpectedResponseType type')
     | None \<Rightarrow> throwIf (type' \<noteq> ''webauthn.get'') (UnexpectedResponseType type'))"

text \<open>Lines 110 to 121: the challenge.\<close>

definition checkChallenge :: "expectedChallenge \<Rightarrow> string \<Rightarrow> ('z, unit) js" where
  "checkChallenge expectedChallenge' challenge =
    (case expectedChallenge' of
       Verifier p \<Rightarrow>
         andThen (await p challenge)
           (\<lambda>ok. throwIf (\<not> ok) (ChallengeVerifierReturnedFalse challenge))
     | Literal c \<Rightarrow> throwIf (challenge \<noteq> c) (UnexpectedChallenge challenge c))"

text \<open>Lines 123 to 137: the origin.\<close>

definition checkOrigin :: "stringOrArray \<Rightarrow> string \<Rightarrow> ('z, unit) js" where
  "checkOrigin expectedOrigin' origin' =
    (case expectedOrigin' of
       Many os \<Rightarrow> throwIf (origin' \<notin> set os) (UnexpectedOriginOneOf origin' os)
     | One o' \<Rightarrow> throwIf (origin' \<noteq> o') (UnexpectedOrigin origin' o'))"

text \<open>Lines 139 to 154: the encodings of the other fields of the response.\<close>

definition checkEncodings :: "helpers \<Rightarrow> jsval \<Rightarrow> ('z, unit) js" where
  "checkEncodings H assertionResponse' =
    (let authenticatorData = getProp assertionResponse' ''authenticatorData'';
         signature' = getProp assertionResponse' ''signature'';
         userHandle = getProp assertionResponse' ''userHandle''
     in
       andThen (invokeE (Call_isBase64URL authenticatorData) (isBase64URL H authenticatorData))
         (\<lambda>ok1. andThen (throwIf (\<not> ok1) AuthenticatorDataNotBase64URL)
         (\<lambda>_. andThen (invokeE (Call_isBase64URL signature') (isBase64URL H signature'))
         (\<lambda>ok2. andThen (throwIf (\<not> ok2) SignatureNotBase64URL)
         (\<lambda>_. throwIf (truthy userHandle \<and> \<not> typeofString userHandle) UserHandleNotString)))))"

text \<open>Lines 156 to 166: the token binding of the client data.\<close>

definition checkTokenBinding :: "jsval \<Rightarrow> ('z, unit) js" where
  "checkTokenBinding tokenBinding =
    (if truthy tokenBinding then
       if \<not> typeofObject tokenBinding then throw TokenBindingNotObject
       else
         let status = getProp tokenBinding ''status''
         in throwIf (\<not> list_ex (\<lambda>s. strictEq (JString s) status)
                         [''present'', ''supported'', ''notSupported''])
              (UnexpectedTokenBindingStatus status)
     else ret ())"

text \<open>Lines 184 to 218: the user-presence and user-verification flags.\<close>

definition checkFlags :: "options \<Rightarrow> flags \<Rightarrow> ('z, unit) js" where
  "checkFlags options' flags' =
    (let requireUserVerification' =
           (case requireUserVerification options' of None \<Rightarrow> True | Some b \<Rightarrow> b)
     in
       case advancedFIDOConfig options' of
         Some advanced \<Rightarrow>
           if userVerification advanced = Some Required
           then throwIf (\<not> uv flags') UserVerificationRequired
           else ret ()
       | None \<Rightarrow>
           andThen (throwIf (\<not> up flags') UserNotPresent)
             (\<lambda>_. throwIf (requireUserVerification' \<and> \<not> uv flags') UserVerificationRequired))"

text \<open>Lines 227 to 238: the signature counter against the stored one.\<close>

definition checkCounter :: "int \<Rightarrow> ('z, unit) js" where
  "checkCounter counter' =
    andThen (readCredential credCounter)
      (\<lambda>stored. throwIf ((counter' > 0 \<or> stored > 0) \<and> counter' \<le> stored)
                   (CounterTooLow counter' stored))"

text \<open>The local variables in scope after line 108, after line 182 and after line 225.\<close>

record locals1 =
  assertionResponse :: jsval
  clientDataString :: string
  clientDataJSON :: ClientDataJSON

record locals2 = locals1 +
  authDataBuffer :: bytes
  parsedAuthData :: ParsedAuthenticatorData
  matchedRPID :: string

record locals3 = locals2 +
  signatureBase :: bytes
  signature :: bytes

text \<open>Lines 61 to 108: the credential, the decoded client data and its type.\<close>

definition reachChallengeCheck :: "helpers \<Rightarrow> options \<Rightarrow> ('z, locals1) js" where
  "reachChallengeCheck H options' =
    andThen (checkCredential (response options'))
      (\<lambda>(assertionResponse', cdj).
    andThen (invokeE (Call_decodeClientDataJSON cdj) (decodeClientDataJSON H cdj))
      (\<lambda>clientDataJSON'.
    andThen (checkType (expectedType options') (cdType clientDataJSON'))
      (\<lambda>_. ret \<lparr>assertionResponse = assertionResponse', clientDataString = cdj,
                 clientDataJSON = clientDataJSON'\<rparr>)))"

text \<open>
  Lines 156 to 182: the token binding, the parsed authenticator data and the RP ID it
  was made for.
\<close>

definition authenticatorDataChecks :: "helpers \<Rightarrow> options \<Rightarrow> locals1 \<Rightarrow> ('z, locals2) js" where
  "authenticatorDataChecks H options' L =
    andThen (checkTokenBinding (cdTokenBinding (clientDataJSON L)))
      (\<lambda>_.
    let authenticatorData = getProp (assertionResponse L) ''authenticatorData'' in
    andThen (invokeE (Call_toBuffer authenticatorData) (toBuffer H authenticatorData))
      (\<lambda>authDataBuffer'.
    andThen (invokeE (Call_parseAuthenticatorData authDataBuffer')
               (parseAuthenticatorData H authDataBuffer'))
      (\<lambda>parsedAuthData'.
    let expectedRPIDs = (case expectedRPID options' of One r \<Rightarrow> [r] | Many rs \<Rightarrow> rs) in
    andThen (invokeE (Call_matchExpectedRPID (rpIdHash parsedAuthData') expectedRPIDs)
               (matchExpectedRPID H (rpIdHash parsedAuthData') expectedRPIDs))
      (\<lambda>matchedRPID'.
    ret \<lparr>assertionResponse = assertionResponse L, clientDataString = clientDataString L,
         clientDataJSON = clientDataJSON L, authDataBuffer = authDataBuffer',
         parsedAuthData = parsedAuthData', matchedRPID = matchedRPID'\<rparr>))))"

text \<open>
  Lines 220 to 225: the signed data and the signature bytes.
  \<^verbatim>\<open>isoUint8Array.concat\<close> joins the arrays it is given, in order.
\<close>

definition signedData :: "helpers \<Rightarrow> locals2 \<Rightarrow> ('z, locals3) js" where
  "signedData H L =
    andThen (invokeE (Call_toBuffer (JString (clientDataString L)))
               (toBuffer H (JString (clientDataString L))))
      (\<lambda>clientDataBytes.
    andThen (invoke (Call_toHash clientDataBytes) (toHash H clientDataBytes))
      (\<lambda>clientDataHash.
    let signatureBase' = concat [authDataBuffer L, clientDataHash];
        signature' = getProp (assertionResponse L) ''signature''
    in
    andThen (invokeE (Call_toBuffer signature') (toBuffer H signature'))
      (\<lambda>signatureBytes.
    ret \<lparr>assertionResponse = assertionResponse L, clientDataString = clientDataString L,
         clientDataJSON = clientDataJSON L, authDataBuffer = authDataBuffer L,
         parsedAuthData = parsedAuthData L, matchedRPID = matchedRPID L,
         signatureBase = signatureBase', signature = signatureBytes\<rparr>)))"

text \<open>Lines 240 to 260: the backup flags, the signature, and the record returned.\<close>

definition buildResult ::
  "helpers \<Rightarrow> locals3 \<Rightarrow> ('z, VerifiedAuthenticationResponse) js" where
  "buildResult H L =
    (let flags' = flags (parsedAuthData L) in
    andThen (invokeE (Call_parseBackupFlags flags') (parseBackupFlags H flags'))
      (\<lambda>(credentialDeviceType', credentialBackedUp').
    andThen (readCredential credPublicKey)
      (\<lambda>publicKey.
    andThen (invokeE (Call_verifySignature (signature L) (signatureBase L) publicKey)
               (verifySignature H (signature L) (signatureBase L) publicKey))
      (\<lambda>verified'.
    andThen (readCredential credID)
      (\<lambda>credentialID'.
    ret \<lparr>verified = verified',
         authenticationInfo =
           \<lparr>newCounter = counter (parsedAuthData L),
            credentialID = credentialID',
            userVerified = uv flags',
            credentialDeviceType = credentialDeviceType',
            credentialBackedUp = credentialBackedUp',
            authenticatorExtensionResults = extensionsData (parsedAuthData L),
            origin = cdOrigin (clientDataJSON L),
            rpID = matchedRPID L\<rparr>\<rparr>)))))"

text \<open>
  The function up to, and without, the encoding checks (lines 61 to 137), the flag
  checks (lines 61 to 182) and the counter check (lines 61 to 225).
\<close>

definition reachEncodingChecks :: "helpers \<Rightarrow> options \<Rightarrow> ('z, locals1) js" where
  "reachEncodingChecks H options' =
    andThen (reachChallengeCheck H options')
      (\<lambda>L.
    andThen (checkChallenge (expectedChallenge options') (cdChallenge (clientDataJSON L)))
      (\<lambda>_.
    andThen (checkOrigin (expectedOrigin options') (cdOrigin (clientDataJSON L)))
      (\<lambda>_. ret L)))"

definition reachFlagCheck :: "helpers \<Rightarrow> options \<Rightarrow> ('z, locals2) js" where
  "reachFlagCheck H options' =
    andThen (reachEncodingChecks H options')
      (\<lambda>L.
    andThen (checkEncodings H (assertionResponse L))
      (\<lambda>_. authenticatorDataChecks H options' L))"

definition reachCounterCheck :: "helpers \<Rightarrow> options \<Rightarrow> ('z, locals3) js" where
  "reachCounterCheck H options' =
    andThen (reachFlagCheck H options')
      (\<lambda>L.
    andThen (checkFlags options' (flags (parsedAuthData L)))
      (\<lambda>_. signedData H L))"

text \<open>Lines 227 to 260: the function from the counter check on.\<close>

definition fromCounterCheck ::
  "helpers \<Rightarrow> locals3 \<Rightarrow> ('z, VerifiedAuthenticationResponse) js" where
  "fromCounterCheck H L =
    andThen (checkCounter (counter (parsedAuthData L))) (\<lambda>_. buildResult H L)"

text \<open>The whole function, lines 51 to 261.\<close>

definition verifyAuthenticationResponse ::
  "helpers \<Rightarrow> options \<Rightarrow> ('z, VerifiedAuthenticationResponse) js" where
  "verifyAuthenticationResponse H options' =
    andThen (reachCounterCheck H options') (fromCounterCheck H)"

text \<open>
  The function from the flag checks on (lines 184 to 260), from the encoding checks on
  (lines 139 to 260), from the origin check on (lines 123 to 260) and from the challenge
  check on (lines 110 to 260), given the local variables in scope there.
\<close>

definition fromFlagCheck ::
  "helpers \<Rightarrow> options \<Rightarrow> locals2 \<Rightarrow> ('z, VerifiedAuthenticationResponse) js" where
  "fromFlagCheck H options' L =
    andThen (checkFlags options' (flags (parsedAuthData L)))
      (\<lambda>_. andThen (signedData H L) (fromCounterCheck H))"

definition fromEncodingChecks ::
  "helpers \<Rightarrow> options \<Rightarrow> locals1 \<Rightarrow> ('z, VerifiedAuthenticationResponse) js" where
  "fromEncodingChecks H options' L =
    andThen (checkEncodings H (assertionResponse L))
      (\<lambda>_. andThen (authenticatorDataChecks H options' L) (fromFlagCheck H options'))"

definition fromOriginCheck ::
  "helpers \<Rightarrow> options \<Rightarrow> locals1 \<Rightarrow> ('z, VerifiedAuthenticationResponse) js" where
  "fromOriginCheck H options' L =
    andThen (checkOrigin (expectedOrigin options') (cdOrigin (clientDataJSON L)))
      (\<lambda>_. fromEncodingChecks H options' L)"

definition fromChallengeCheck ::
  "helpers \<Rightarrow> options \<Rightarrow> locals1 \<Rightarrow> ('z, VerifiedAuthenticationResponse) js" where
  "fromChallengeCheck H options' L =
    andThen (checkChallenge (expectedChallenge options') (cdChallenge (clientDataJSON L)))
      (\<lambda>_. fromOriginCheck H options' L)"

section \<open>Notions used to state and prove the properties\<close>

text \<open>The calls a computation makes when it is run in a heap.\<close>

definition newCalls :: "('z, 'a) js \<Rightarrow> 'z heap \<Rightarrow> call list" where
  "newCalls m h = drop (length (calls h)) (calls (snd (m h)))"

fun isVerifySignature :: "call \<Rightarrow> bool" where
  "isVerifySignature (Call_verifySignature sg dat key) = True"
| "isVerifySignature _ = False"

fun isExpectedChallenge :: "call \<Rightarrow> bool" where
  "isExpectedChallenge (Call_expectedChallenge c) = True"
| "isExpectedChallenge _ = False"

text \<open>Two credential objects with the same id, public key and counter.\<close>

definition sameFields ::
  "'y WebAuthnCredential_scheme \<Rightarrow> 'z WebAuthnCredential_scheme \<Rightarrow> bool" where
  "sameFields c d \<longleftrightarrow>
     credID c = credID d \<and> credPublicKey c = credPublicKey d \<and> credCounter c = credCounter d"

text \<open>
  Two computations are related when, run in heaps whose credentials are related by \<open>R\<close>
  and which hold the same state of the caller, they settle alike (both never, both
  throwing the same error, or both yielding values related by \<open>Q\<close>), make the same
  calls, leave the same state of the caller, and change nothing else in their heaps.
\<close>

definition related ::
  "('y WebAuthnCredential_scheme \<Rightarrow> 'z WebAuthnCredential_scheme \<Rightarrow> bool) \<Rightarrow>
   ('a \<Rightarrow> 'b \<Rightarrow> bool) \<Rightarrow> ('y, 'a) js \<Rightarrow> ('z, 'b) js \<Rightarrow> bool" where
  "related R Q m n \<longleftrightarrow>
     (\<forall>h k. R (credential h) (credential k) \<and> callerState h = callerState k \<longrightarrow>
        rel_option (rel_sum (=) Q) (fst (m h)) (fst (n k)) \<and>
        (\<exists>cs s. snd (m h) = h\<lparr>calls := calls h @ cs, callerState := s\<rparr> \<and>
                snd (n k) = k\<lparr>calls := calls k @ cs, callerState := s\<rparr>))"

text \<open>
  A computation is confined to \<open>P\<close> and \<open>E\<close> when it changes nothing in the heap
  but the log and the caller's state, logs only calls that satisfy \<open>P\<close>, and throws
  only errors that satisfy \<open>E\<close>.
\<close>

definition confined :: "(call \<Rightarrow> bool) \<Rightarrow> (error \<Rightarrow> bool) \<Rightarrow> ('z, 'a) js \<Rightarrow> bool" where
  "confined P E m \<longleftrightarrow>
     (\<forall>h. (\<exists>cs s. snd (m h) = h\<lparr>calls := calls h @ cs, callerState := s\<rparr> \<and> list_all P cs) \<and>
          (\<forall>e. fst (m h) = Some (Inl e) \<longrightarrow> E e))"

text \<open>
  A computation is stateless when it neither reads nor writes the caller's state: run
  in another state of the caller, it does the same and leaves that state as it is.
\<close>

definition stateless :: "('z, 'a) js \<Rightarrow> bool" where
  "stateless m \<longleftrightarrow>
     (\<forall>h s. m (h\<lparr>callerState := s\<rparr>) = (fst (m h), (snd (m h))\<lparr>callerState := s\<rparr>))"

text \<open>
  A record of helpers tells how the helpers answer during one run. Two runs made at
  different times may be given two records; pure helpers are the same record in both.
  The predicate below tells whether two records give a call the same answer. (The
  caller's challenge verifier is not a helper.)
\<close>

fun sameAnswer :: "helpers \<Rightarrow> helpers \<Rightarrow> call \<Rightarrow> bool" where
  "sameAnswer H H' (Call_decodeClientDataJSON s) \<longleftrightarrow>
     decodeClientDataJSON H s = decodeClientDataJSON H' s"
| "sameAnswer H H' (Call_expectedChallenge c) \<longleftrightarrow> True"
| "sameAnswer H H' (Call_isBase64URL v) \<longleftrightarrow> isBase64URL H v = isBase64URL H' v"
| "sameAnswer H H' (Call_toBuffer v) \<longleftrightarrow> toBuffer H v = toBuffer H' v"
| "sameAnswer H H' (Call_parseAuthenticatorData buf) \<longleftrightarrow>
     parseAuthenticatorData H buf = parseAuthenticatorData H' buf"
| "sameAnswer H H' (Call_matchExpectedRPID hash ids) \<longleftrightarrow>
     matchExpectedRPID H hash ids = matchExpectedRPID H' hash ids"
| "sameAnswer H H' (Call_toHash buf) \<longleftrightarrow> toHash H buf = toHash H' buf"
| "sameAnswer H H' (Call_parseBackupFlags f) \<longleftrightarrow> parseBackupFlags H f = parseBackupFlags H' f"
| "sameAnswer H H' (Call_verifySignature sg dat key) \<longleftrightarrow>
     verifySignature H sg dat key = verifySignature H' sg dat key"

text \<open>
  A computation \<open>n\<close> follows a computation \<open>m\<close> under \<open>P\<close> when, run in a heap in which
  \<open>m\<close> makes only calls that satisfy \<open>P\<close>, it does what \<open>m\<close> does there; \<open>m\<close> changing
  nothing in the heap but the log and the caller's state.
\<close>

definition follows :: "(call \<Rightarrow> bool) \<Rightarrow> ('z, 'a) js \<Rightarrow> ('z, 'a) js \<Rightarrow> bool" where
  "follows P m n \<longleftrightarrow>
     confined (\<lambda>c. True) (\<lambda>e. True) m \<and> (\<forall>h. list_all P (newCalls m h) \<longrightarrow> n h = m h)"

text \<open>Whether the type check of lines 92 to 108 lets a ceremony type pass.\<close>

definition typeAccepted :: "stringOrArray option \<Rightarrow> string \<Rightarrow> bool" where
  "typeAccepted e t \<longleftrightarrow>
     (case e of
        Some (Many ts) \<Rightarrow> t \<in> set ts
      | Some (One u) \<Rightarrow> if u \<noteq> [] then t = u else t = ''webauthn.get''
      | None \<Rightarrow> t = ''webauthn.get'')"

text \<open>
  Whether the challenge check of lines 110 to 121, made in a given state of the caller,
  lets a challenge pass, whether it rejects it by throwing its own error, and that error.
\<close>

definition challengeAccepted :: "expectedChallenge \<Rightarrow> jsval \<Rightarrow> string \<Rightarrow> bool" where
  "challengeAccepted e s c \<longleftrightarrow>
     (case e of Literal l \<Rightarrow> c = l | Verifier p \<Rightarrow> fst (p c s) = Resolves True)"

definition challengeRejected :: "expectedChallenge \<Rightarrow> jsval \<Rightarrow> string \<Rightarrow> bool" where
  "challengeRejected e s c \<longleftrightarrow>
     (case e of Literal l \<Rightarrow> c \<noteq> l | Verifier p \<Rightarrow> fst (p c s) = Resolves False)"

definition challengeError :: "expectedChallenge \<Rightarrow> string \<Rightarrow> error" where
  "challengeError e c =
     (case e of Literal l \<Rightarrow> UnexpectedChallenge c l
      | Verifier p \<Rightarrow> ChallengeVerifierReturnedFalse c)"

text \<open>
  Whether the origin check of lines 123 to 137 lets an origin pass (it is the expected
  origin, or one of the expected origins), and the error it throws otherwise.
\<close>

definition originAccepted :: "stringOrArray \<Rightarrow> string \<Rightarrow> bool" where
  "originAccepted e g \<longleftrightarrow> (case e of One g' \<Rightarrow> g = g' | Many gs \<Rightarrow> g \<in> set gs)"

definition originError :: "stringOrArray \<Rightarrow> string \<Rightarrow> error" where
  "originError e g =
     (case e of One g' \<Rightarrow> UnexpectedOrigin g g' | Many gs \<Rightarrow> UnexpectedOriginOneOf g gs)"

text \<open>Two returned records that agree in every field but, possibly, \<open>credentialID\<close>.\<close>

definition sameButID ::
  "VerifiedAuthenticationResponse \<Rightarrow> VerifiedAuthenticationResponse \<Rightarrow> bool" where
  "sameButID r s \<longleftrightarrow>
     s = r\<lparr>authenticationInfo :=
            (authenticationInfo r)\<lparr>credentialID := credentialID (authenticationInfo s)\<rparr>\<rparr>"

text \<open>Two credential objects with the same public key and counter.\<close>

definition sameKeyAndCounter ::
  "'y WebAuthnCredential_scheme \<Rightarrow> 'z WebAuthnCredential_scheme \<Rightarrow> bool" where
  "sameKeyAndCounter c d \<longleftrightarrow>
     credPublicKey c = credPublicKey d \<and> credCounter c = credCounter d"

text \<open>The errors of the checks on the credential, and those of the encoding checks.\<close>

definition credentialError :: "error \<Rightarrow> bool" where
  "credentialError e \<longleftrightarrow>
     e = MissingCredentialID \<or> e = CredentialIDNotBase64URL \<or>
     (\<exists>t. e = UnexpectedCredentialType t) \<or> e = ClientDataJSONNotString"

definition encodingError :: "error \<Rightarrow> bool" where
  "encodingError e \<longleftrightarrow>
     e = AuthenticatorDataNotBase64URL \<or> e = SignatureNotBase64URL \<or> e = UserHandleNotString"

section \<open>Stand-ins for the helpers\<close>

text \<open>
  Small executable stand-ins for the helpers, used to run the function on concrete
  inputs. Encoded strings use the letters \<open>A\<close> to \<open>Z\<close>, a letter standing for the byte
  0 to 25. Like the validator of the package, \<open>demo_isBase64URL\<close> drops the padding
  character \<^verbatim>\<open>=\<close> before it looks at the others, and raises a \<^verbatim>\<open>TypeError\<close> when
  it is given a value that is not a string (it calls a string method on it). The hash
  of a byte string is its length; the authenticator data is one byte
  of RP ID hash, the flag byte and one byte of counter; a signature is valid when it is
  the public key followed by the signed data. The client data \<open>A\<close> is a
  \<^verbatim>\<open>webauthn.get\<close> for the challenge \<^verbatim>\<open>abc123\<close> at \<^verbatim>\<open>https://example.com\<close>,
  \<open>B\<close> is the same at \<^verbatim>\<open>https://evil.example\<close>.
\<close>

definition demo_letter :: "char \<Rightarrow> bool" where
  "demo_letter c \<longleftrightarrow> 65 \<le> (of_char c :: nat) \<and> (of_char c :: nat) \<le> 90"

definition demo_isBase64URL :: "jsval \<Rightarrow> string + bool" where
  "demo_isBase64URL v =
    (case v of
       JString s \<Rightarrow> Inr (list_all demo_letter (filter (\<lambda>c. c \<noteq> CHR ''='') s))
     | _ \<Rightarrow> Inl ''TypeError: not a string'')"

definition demo_toBuffer :: "jsval \<Rightarrow> string + bytes" where
  "demo_toBuffer v =
    (case v of
       JString s \<Rightarrow>
         if list_all demo_letter s then Inr (map (\<lambda>c. of_nat (of_char c - 65)) s)
         else Inl ''invalid character''
     | _ \<Rightarrow> Inl ''TypeError: not a string'')"

definition demo_decodeClientDataJSON :: "string \<Rightarrow> string + ClientDataJSON" where
  "demo_decodeClientDataJSON s =
    (if s = ''A'' then
       Inr \<lparr>cdType = ''webauthn.get'', cdOrigin = ''https://example.com'',
            cdChallenge = ''abc123'', cdTokenBinding = JUndefined\<rparr>
     else if s = ''B'' then
       Inr \<lparr>cdType = ''webauthn.get'', cdOrigin = ''https://evil.example'',
            cdChallenge = ''abc123'', cdTokenBinding = JUndefined\<rparr>
     else Inl ''malformed client data'')"

definition demo_toHash :: "bytes \<Rightarrow> bytes" where
  "demo_toHash xs = [of_nat (length xs)]"

definition demo_parseAuthenticatorData :: "bytes \<Rightarrow> string + ParsedAuthenticatorData" where
  "demo_parseAuthenticatorData buf =
    (case buf of
       [h, f, c] \<Rightarrow>
         Inr \<lparr>rpIdHash = [h],
              flags = \<lparr>up = odd (unat f), uv = odd (unat f div 4), be = odd (unat f div 8),
                       bs = odd (unat f div 16), at = odd (unat f div 64),
                       ed = odd (unat f div 128)\<rparr>,
              counter = uint c, extensionsData = JUndefined\<rparr>
     | _ \<Rightarrow> Inl ''malformed authenticator data'')"

definition demo_matchExpectedRPID :: "bytes \<Rightarrow> string list \<Rightarrow> string + string" where
  "demo_matchExpectedRPID h ids =
    (case filter (\<lambda>r. demo_toHash (map (\<lambda>c. of_nat (of_char c)) r) = h) ids of
       [] \<Rightarrow> Inl ''unexpected RP ID hash''
     | r # _ \<Rightarrow> Inr r)"

definition demo_parseBackupFlags :: "flags \<Rightarrow> string + CredentialDeviceType \<times> bool" where
  "demo_parseBackupFlags f =
    (if be f then Inr (MultiDevice, bs f)
     else if bs f then Inl ''impossible backup flags''
     else Inr (SingleDevice, False))"

definition demo_verifySignature :: "bytes \<Rightarrow> bytes \<Rightarrow> bytes \<Rightarrow> string + bool" where
  "demo_verifySignature sg dat key = Inr (sg = key @ dat)"

definition demo_helpers :: helpers where
  "demo_helpers =
    \<lparr>decodeClientDataJSON = demo_decodeClientDataJSON,
     isBase64URL = demo_isBase64URL,
     toBuffer = demo_toBuffer,
     parseAuthenticatorData = demo_parseAuthenticatorData,
     matchExpectedRPID = demo_matchExpectedRPID,
     toHash = demo_toHash,
     parseBackupFlags = demo_parseBackupFlags,
     verifySignature = demo_verifySignature\<rparr>"

text \<open>
  A response with the id \<open>QQ\<close>, the given client data, authenticator data and
  signature, and the given further properties of its inner \<^verbatim>\<open>response\<close>; the options
  of scenario A of the specification around it; and a heap with a credential that has
  the public key \<open>[7]\<close> and the given id and stored counter, an empty log, and
  \<^verbatim>\<open>null\<close> for the caller's state.
\<close>

definition demo_response :: "string \<Rightarrow> string \<Rightarrow> string \<Rightarrow> (string \<times> jsval) list \<Rightarrow> jsval" where
  "demo_response cdj authData sg props =
    JObject [(''id'', JString ''QQ''), (''rawId'', JString ''QQ''),
             (''type'', JString ''public-key''),
             (''response'', JObject ([(''clientDataJSON'', JString cdj),
                                      (''authenticatorData'', JString authData),
                                      (''signature'', JString sg)] @ props))]"

text \<open>The same response without \<^verbatim>\<open>authenticatorData\<close>.\<close>

definition demo_response_without_authenticatorData :: jsval where
  "demo_response_without_authenticatorData =
    JObject [(''id'', JString ''QQ''), (''rawId'', JString ''QQ''),
             (''type'', JString ''public-key''),
             (''response'', JObject [(''clientDataJSON'', JString ''A''),
                                     (''signature'', JString ''HLFFB'')])]"

text \<open>A response whose \<open>id\<close> and \<open>rawId\<close> differ.\<close>

definition demo_mismatched_response :: jsval where
  "demo_mismatched_response =
    JObject [(''id'', JString ''QQ''), (''rawId'', JString ''QR''),
             (''type'', JString ''public-key''),
             (''response'', JObject [(''clientDataJSON'', JString ''A''),
                                     (''authenticatorData'', JString ''LFF''),
                                     (''signature'', JString ''HLFFB'')])]"

definition demo_options :: "jsval \<Rightarrow> options" where
  "demo_options r =
    \<lparr>response = r, expectedChallenge = Literal ''abc123'',
     expectedOrigin = One ''https://example.com'', expectedRPID = One ''example.com'',
     expectedType = None, requireUserVerification = None, advancedFIDOConfig = None\<rparr>"

definition demo_heap :: "string \<Rightarrow> int \<Rightarrow> unit heap" where
  "demo_heap i n =
    \<lparr>credential = \<lparr>credID = i, credPublicKey = [7], credCounter = n\<rparr>, calls = [],
     callerState = JNull\<rparr>"

text \<open>
  A caller's verifier that accepts the challenge \<^verbatim>\<open>abc123\<close> once: the caller's state
  is \<^verbatim>\<open>null\<close> until the challenge has been presented, and \<^verbatim>\<open>true\<close> from then on.
\<close>

definition demo_once :: "string \<Rightarrow> jsval \<Rightarrow> awaited \<times> jsval" where
  "demo_once c s = (Resolves (c = ''abc123'' \<and> s = JNull), JBool True)"

text \<open>The same heap, with a credential object in which the caller keeps more.\<close>

definition demo_heap_with_transports :: "string \<Rightarrow> int \<Rightarrow> (string list) heap" where
  "demo_heap_with_transports i n =
    \<lparr>credential = \<lparr>credID = i, credPublicKey = [7], credCounter = n, \<dots> = [''usb'', ''nfc'']\<rparr>,
     calls = [], callerState = JNull\<rparr>"

section \<open>Running a computation\<close>

lemmas js_defs =
  throw_def ret_def andThen_def throwIf_def invoke_def invokeE_def await_def readCredential_def

lemmas demo_defs =
  demo_helpers_def demo_letter_def demo_isBase64URL_def demo_toBuffer_def demo_decodeClientDataJSON_def
  demo_toHash_def demo_parseAuthenticatorData_def demo_matchExpectedRPID_def
  demo_parseBackupFlags_def demo_verifySignature_def demo_response_def demo_options_def
  demo_heap_def demo_once_def

lemmas body_defs =
  verifyAuthenticationResponse_def fromCounterCheck_def reachCounterCheck_def
  reachFlagCheck_def reachEncodingChecks_def reachChallengeCheck_def
  authenticatorDataChecks_def signedData_def buildResult_def
  checkCredential_def checkType_def checkChallenge_def checkOrigin_def
  checkEncodings_def checkTokenBinding_def checkFlags_def checkCounter_def

lemmas demo_eval =
  demo_defs js_defs body_defs Let_def fromFlagCheck_def fromEncodingChecks_def
  fromOriginCheck_def fromChallengeCheck_def

lemma andThen_Inr: "m h = (Some (Inr a), h1) \<Longrightarrow> andThen m f h = f a h1"
  by (simp add: andThen_def)

lemma andThen_Inl: "m h = (Some (Inl e), h1) \<Longrightarrow> andThen m f h = (Some (Inl e), h1)"
  by (simp add: andThen_def)

lemma andThen_None: "m h = (None, h1) \<Longrightarrow> andThen m f h = (None, h1)"
  by (simp add: andThen_def)

lemma andThen_assoc: "andThen (andThen m f) g = andThen m (\<lambda>a. andThen (f a) g)"
  by (auto simp: andThen_def fun_eq_iff split: prod.splits option.splits sum.splits)

lemma ret_andThen: "andThen (ret a) f = f a"
  by (simp add: andThen_def ret_def)

lemma andThen_ret: "andThen m ret = m"
  by (auto simp: andThen_def ret_def fun_eq_iff split: prod.splits option.splits sum.splits)

lemma andThen_not_Inr:
  "(\<And>a. fst (m h) \<noteq> Some (Inr a)) \<Longrightarrow>
   fst (andThen m f h) = map_option (map_sum id undefined) (fst (m h)) \<and> snd (andThen m f h) = snd (m h)"
  by (cases "m h") (auto simp: andThen_def split: option.splits sum.splits)

section \<open>The function from a check on\<close>

lemma verify_fromFlagCheck:
  "verifyAuthenticationResponse H x = andThen (reachFlagCheck H x) (fromFlagCheck H x)"
  by (simp add: verifyAuthenticationResponse_def reachCounterCheck_def fromFlagCheck_def[abs_def]
      andThen_assoc)

lemma verify_fromEncodingChecks:
  "verifyAuthenticationResponse H x = andThen (reachEncodingChecks H x) (fromEncodingChecks H x)"
  by (simp add: verify_fromFlagCheck reachFlagCheck_def fromEncodingChecks_def[abs_def]
      andThen_assoc)

lemma verify_fromChallengeCheck:
  "verifyAuthenticationResponse H x = andThen (reachChallengeCheck H x) (fromChallengeCheck H x)"
  by (simp add: verify_fromEncodingChecks reachEncodingChecks_def fromChallengeCheck_def[abs_def]
      fromOriginCheck_def[abs_def] andThen_assoc ret_andThen)


section \<open>Confined computations\<close>

lemma confinedI:
  assumes "\<And>h. snd (m h) = h\<lparr>calls := calls h @ cs h, callerState := st h\<rparr>"
    and "\<And>h. list_all P (cs h)"
    and "\<And>h e. fst (m h) = Some (Inl e) \<Longrightarrow> E e"
  shows "confined P E m"
  unfolding confined_def using assms by blast

lemma confined_throw: "E e \<Longrightarrow> confined P E (throw e)"
  by (rule confinedI[where cs = "\<lambda>h. []" and st = callerState]) (simp_all add: throw_def)

lemma confined_ret: "confined P E (ret a)"
  by (rule confinedI[where cs = "\<lambda>h. []" and st = callerState]) (simp_all add: ret_def)

lemma confined_throwIf: "(b \<Longrightarrow> E e) \<Longrightarrow> confined P E (throwIf b e)"
  unfolding throwIf_def by (simp add: confined_throw confined_ret)

lemma confined_invoke: "P c \<Longrightarrow> confined P E (invoke c v)"
  by (rule confinedI[where cs = "\<lambda>h. [c]" and st = callerState]) (simp_all add: invoke_def)

lemma confined_invokeE: "P c \<Longrightarrow> (\<And>m. E (HelperThrew m)) \<Longrightarrow> confined P E (invokeE c r)"
  by (rule confinedI[where cs = "\<lambda>h. [c]" and st = callerState])
    (auto simp: invokeE_def split: sum.splits)

lemma confined_await:
  "P (Call_expectedChallenge c) \<Longrightarrow> (\<And>m. E (VerifierRejected m)) \<Longrightarrow> confined P E (await p c)"
  by (rule confinedI[where cs = "\<lambda>h. [Call_expectedChallenge c]"
        and st = "\<lambda>h. snd (p c (callerState h))"])
    (auto simp: await_def split: awaited.splits)

lemma confined_readCredential: "confined P E (readCredential f)"
  by (rule confinedI[where cs = "\<lambda>h. []" and st = callerState])
    (simp_all add: readCredential_def)

lemma confined_andThen:
  assumes m: "confined P E m" and f: "\<And>a. confined P E (f a)"
  shows "confined P E (andThen m f)"
  unfolding confined_def
proof (intro allI)
  fix h
  from m obtain cs s where
    hh: "snd (m h) = h\<lparr>calls := calls h @ cs, callerState := s\<rparr>" and cs: "list_all P cs" and
    e: "\<And>e. fst (m h) = Some (Inl e) \<Longrightarrow> E e"
    unfolding confined_def by blast
  show "(\<exists>cs s. snd (andThen m f h) = h\<lparr>calls := calls h @ cs, callerState := s\<rparr> \<and>
            list_all P cs) \<and>
        (\<forall>e. fst (andThen m f h) = Some (Inl e) \<longrightarrow> E e)"
  proof (cases "\<exists>a. fst (m h) = Some (Inr a)")
    case False
    then have o: "fst (andThen m f h) = map_option (map_sum id undefined) (fst (m h))"
      and h': "snd (andThen m f h) = snd (m h)"
      using andThen_not_Inr[of m h f] by auto
    have "\<exists>cs s. snd (andThen m f h) = h\<lparr>calls := calls h @ cs, callerState := s\<rparr> \<and>
            list_all P cs"
      unfolding h' using hh cs by blast
    moreover have "E e'" if "fst (andThen m f h) = Some (Inl e')" for e'
      using that False e unfolding o
      by (cases "fst (m h)") (auto simp: map_sum_def split: sum.splits)
    ultimately show ?thesis by blast
  next
    case True
    then obtain a where a: "fst (m h) = Some (Inr a)" by blast
    let ?h = "h\<lparr>calls := calls h @ cs, callerState := s\<rparr>"
    have mh: "m h = (Some (Inr a), ?h)" using a hh by (simp add: prod_eq_iff)
    from f[of a] obtain ds t where
      hh': "snd (f a ?h) = ?h\<lparr>calls := calls ?h @ ds, callerState := t\<rparr>" and
      ds: "list_all P ds" and
      e': "\<And>e. fst (f a ?h) = Some (Inl e) \<Longrightarrow> E e"
      unfolding confined_def by blast
    have eq: "andThen m f h = f a ?h" using mh by (rule andThen_Inr)
    have "snd (andThen m f h) = h\<lparr>calls := calls h @ (cs @ ds), callerState := t\<rparr> \<and>
        list_all P (cs @ ds)"
      unfolding eq hh' using cs ds by simp
    then have "\<exists>cs s. snd (andThen m f h) = h\<lparr>calls := calls h @ cs, callerState := s\<rparr> \<and>
            list_all P cs"
      by blast
    with e' show ?thesis unfolding eq by blast
  qed
qed

lemma confined_weaken:
  "confined P E m \<Longrightarrow> (\<And>c. P c \<Longrightarrow> P' c) \<Longrightarrow> (\<And>e. E e \<Longrightarrow> E' e) \<Longrightarrow> confined P' E' m"
  unfolding confined_def by (meson list.pred_mono_strong)

lemmas confined_intros =
  confined_throw confined_ret confined_throwIf confined_invoke confined_invokeE confined_await
  confined_readCredential confined_andThen

lemma confined_heap:
  assumes "confined P E m"
  shows "snd (m h) =
    h\<lparr>calls := calls h @ newCalls m h, callerState := callerState (snd (m h))\<rparr>"
proof -
  from assms obtain cs s where
    "snd (m h) = h\<lparr>calls := calls h @ cs, callerState := s\<rparr>"
    unfolding confined_def by blast
  then show ?thesis by (simp add: newCalls_def)
qed

lemma confined_newCalls:
  assumes "confined P E m"
  shows "list_all P (newCalls m h)"
proof -
  from assms obtain cs s where
    "snd (m h) = h\<lparr>calls := calls h @ cs, callerState := s\<rparr>" "list_all P cs"
    unfolding confined_def by blast
  then show ?thesis by (simp add: newCalls_def)
qed

lemma confined_error: "confined P E m \<Longrightarrow> fst (m h) = Some (Inl e) \<Longrightarrow> E e"
  unfolding confined_def by blast

lemma confined_calls:
  assumes "confined P E m"
  shows "calls (snd (m h)) = calls h @ newCalls m h"
proof -
  have "calls (snd (m h)) =
      calls (h\<lparr>calls := calls h @ newCalls m h, callerState := callerState (snd (m h))\<rparr>)"
    using confined_heap[OF assms, of h] by (rule arg_cong)
  then show ?thesis by simp
qed

lemma confined_credential:
  assumes "confined P E m"
  shows "credential (snd (m h)) = credential h"
proof -
  have "credential (snd (m h)) =
      credential (h\<lparr>calls := calls h @ newCalls m h, callerState := callerState (snd (m h))\<rparr>)"
    using confined_heap[OF assms, of h] by (rule arg_cong)
  then show ?thesis by simp
qed

lemma newCalls_andThen_Inr:
  assumes m: "confined P E m" and f: "confined P' E' (f a)" and r: "m h = (Some (Inr a), h1)"
  shows "newCalls (andThen m f) h = newCalls m h @ newCalls (f a) h1"
proof -
  have s: "snd (m h) = h1" using r by simp
  have 1: "calls h1 = calls h @ newCalls m h"
    using confined_calls[OF m, of h] unfolding s .
  have 2: "calls (snd (f a h1)) = calls h1 @ newCalls (f a) h1"
    by (rule confined_calls[OF f])
  have "andThen m f h = f a h1"
    using r by (rule andThen_Inr)
  then have "newCalls (andThen m f) h = drop (length (calls h)) (calls (snd (f a h1)))"
    unfolding newCalls_def by simp
  also have "\<dots> = newCalls m h @ newCalls (f a) h1"
    unfolding 2 1 by simp
  finally show ?thesis .
qed

lemma newCalls_andThen_other:
  assumes "\<And>a. fst (m h) \<noteq> Some (Inr a)"
  shows "newCalls (andThen m f) h = newCalls m h"
  using andThen_not_Inr[of m h f] assms by (simp add: newCalls_def)

lemma fst_andThen_other:
  assumes "\<And>a. fst (m h) \<noteq> Some (Inr a)"
  shows "fst (andThen m f h) \<noteq> Some (Inr b)"
  using andThen_not_Inr[of m h f] assms
  by (cases "fst (m h)") (auto simp: map_sum_def split: sum.splits)

section \<open>Every piece of the function is confined\<close>

lemma confined_checkCredential:
  assumes "E TypeError" "E MissingCredentialID" "E CredentialIDNotBase64URL"
    "\<And>t. E (UnexpectedCredentialType t)" "E CredentialMissingResponse" "E ClientDataJSONNotString"
  shows "confined P E (checkCredential r)"
  unfolding checkCredential_def using assms
  by (auto simp: Let_def intro!: confined_intros split: jsval.splits)

lemma confined_checkType:
  assumes "\<And>t ts. E (UnexpectedResponseTypeOneOf t ts)" "\<And>t u. E (UnexpectedResponseTypeExpected t u)"
    "\<And>t. E (UnexpectedResponseType t)"
  shows "confined P E (checkType t x)"
  unfolding checkType_def using assms
  by (auto intro!: confined_intros split: option.splits stringOrArray.splits)

lemma confined_checkChallenge:
  assumes "\<And>c. P (Call_expectedChallenge c)" "\<And>m. E (VerifierRejected m)"
    "\<And>c. E (ChallengeVerifierReturnedFalse c)" "\<And>c d. E (UnexpectedChallenge c d)"
  shows "confined P E (checkChallenge t x)"
  unfolding checkChallenge_def using assms
  by (auto intro!: confined_intros split: expectedChallenge.splits)

lemma confined_checkOrigin:
  assumes "\<And>c ds. E (UnexpectedOriginOneOf c ds)" "\<And>c d. E (UnexpectedOrigin c d)"
  shows "confined P E (checkOrigin t x)"
  unfolding checkOrigin_def using assms
  by (auto intro!: confined_intros split: stringOrArray.splits)

lemma confined_checkEncodings:
  assumes "\<And>v. P (Call_isBase64URL v)" "\<And>m. E (HelperThrew m)"
    "E AuthenticatorDataNotBase64URL" "E SignatureNotBase64URL" "E UserHandleNotString"
  shows "confined P E (checkEncodings H x)"
  unfolding checkEncodings_def using assms
  by (auto simp: Let_def intro!: confined_intros)

lemma confined_checkTokenBinding:
  assumes "E TokenBindingNotObject" "\<And>v. E (UnexpectedTokenBindingStatus v)"
  shows "confined P E (checkTokenBinding x)"
  unfolding checkTokenBinding_def using assms
  by (auto simp: Let_def intro!: confined_intros)

lemma confined_checkFlags:
  assumes "E UserNotPresent" "E UserVerificationRequired"
  shows "confined P E (checkFlags x y)"
  unfolding checkFlags_def using assms
  by (auto simp: Let_def intro!: confined_intros split: option.splits)

lemma confined_checkCounter:
  assumes "\<And>n c. E (CounterTooLow n c)"
  shows "confined P E (checkCounter x)"
  unfolding checkCounter_def using assms
  by (auto simp: Let_def intro!: confined_intros)

lemma confined_reachChallengeCheck:
  assumes "\<And>v. P (Call_decodeClientDataJSON v)" "\<And>m. E (HelperThrew m)"
    "E TypeError" "E MissingCredentialID" "E CredentialIDNotBase64URL"
    "\<And>t. E (UnexpectedCredentialType t)" "E CredentialMissingResponse" "E ClientDataJSONNotString"
    "\<And>t ts. E (UnexpectedResponseTypeOneOf t ts)" "\<And>t u. E (UnexpectedResponseTypeExpected t u)"
    "\<And>t. E (UnexpectedResponseType t)"
  shows "confined P E (reachChallengeCheck H x)"
  unfolding reachChallengeCheck_def using assms
  by (auto intro!: confined_intros confined_checkCredential confined_checkType)

lemma confined_authenticatorDataChecks:
  assumes "\<And>v. P (Call_toBuffer v)" "\<And>v. P (Call_parseAuthenticatorData v)"
    "\<And>v w. P (Call_matchExpectedRPID v w)" "\<And>m. E (HelperThrew m)"
    "E TokenBindingNotObject" "\<And>v. E (UnexpectedTokenBindingStatus v)"
  shows "confined P E (authenticatorDataChecks H x L)"
  unfolding authenticatorDataChecks_def using assms
  by (auto simp: Let_def intro!: confined_intros confined_checkTokenBinding)

lemma confined_signedData:
  assumes "\<And>v. P (Call_toBuffer v)" "\<And>v. P (Call_toHash v)" "\<And>m. E (HelperThrew m)"
  shows "confined P E (signedData H L)"
  unfolding signedData_def using assms
  by (auto simp: Let_def intro!: confined_intros)

lemma confined_buildResult:
  assumes "\<And>v. P (Call_parseBackupFlags v)" "\<And>u v w. P (Call_verifySignature u v w)"
    "\<And>m. E (HelperThrew m)"
  shows "confined P E (buildResult H L)"
  unfolding buildResult_def using assms
  by (auto simp: Let_def intro!: confined_intros)

text \<open>
  Every piece changes nothing in the heap but the log and, where the caller's challenge
  verifier is called, the caller's state.
\<close>


lemmas confined_pieces =
  confined_checkCredential confined_checkType confined_checkChallenge confined_checkOrigin
  confined_checkEncodings confined_checkTokenBinding confined_checkFlags confined_checkCounter
  confined_reachChallengeCheck confined_authenticatorDataChecks confined_signedData
  confined_buildResult

lemma grows_reachEncodingChecks: "confined (\<lambda>c. True) (\<lambda>e. True) (reachEncodingChecks H x)"
  unfolding reachEncodingChecks_def
  by (intro confined_intros confined_pieces) simp_all

lemma grows_reachFlagCheck: "confined (\<lambda>c. True) (\<lambda>e. True) (reachFlagCheck H x)"
  unfolding reachFlagCheck_def
  by (intro confined_intros confined_pieces grows_reachEncodingChecks) simp_all

lemma grows_reachCounterCheck: "confined (\<lambda>c. True) (\<lambda>e. True) (reachCounterCheck H x)"
  unfolding reachCounterCheck_def
  by (intro confined_intros confined_pieces grows_reachFlagCheck) simp_all

lemma grows_fromCounterCheck: "confined (\<lambda>c. True) (\<lambda>e. True) (fromCounterCheck H L)"
  unfolding fromCounterCheck_def
  by (intro confined_intros confined_pieces) simp_all

lemma grows_verify: "confined (\<lambda>c. True) (\<lambda>e. True) (verifyAuthenticationResponse H x)"
  unfolding verifyAuthenticationResponse_def
  by (intro confined_intros grows_reachCounterCheck grows_fromCounterCheck)


section \<open>Stateless computations\<close>

lemma stateless_throw: "stateless (throw e)"
  by (simp add: stateless_def throw_def)

lemma stateless_ret: "stateless (ret a)"
  by (simp add: stateless_def ret_def)

lemma stateless_throwIf: "stateless (throwIf b e)"
  by (simp add: throwIf_def stateless_throw stateless_ret)

lemma stateless_invoke: "stateless (invoke c v)"
  by (simp add: stateless_def invoke_def)

lemma stateless_invokeE: "stateless (invokeE c r)"
  by (simp add: stateless_def invokeE_def)

lemma stateless_readCredential: "stateless (readCredential f)"
  by (simp add: stateless_def readCredential_def)

lemma stateless_andThen:
  assumes m: "stateless m" and f: "\<And>a. stateless (f a)"
  shows "stateless (andThen m f)"
  unfolding stateless_def
proof (intro allI)
  fix h s
  have mh: "m (h\<lparr>callerState := s\<rparr>) = (fst (m h), (snd (m h))\<lparr>callerState := s\<rparr>)"
    using m unfolding stateless_def by blast
  have fh: "f a (k\<lparr>callerState := s\<rparr>) = (fst (f a k), (snd (f a k))\<lparr>callerState := s\<rparr>)"
    for a k
    using f[of a] unfolding stateless_def by blast
  show "andThen m f (h\<lparr>callerState := s\<rparr>) =
      (fst (andThen m f h), (snd (andThen m f h))\<lparr>callerState := s\<rparr>)"
    by (cases "m h") (simp add: andThen_def mh fh split: option.splits sum.splits)
qed

lemmas stateless_intros =
  stateless_throw stateless_ret stateless_throwIf stateless_invoke stateless_invokeE
  stateless_readCredential stateless_andThen

lemma stateless_fst: "stateless m \<Longrightarrow> fst (m (h\<lparr>callerState := s\<rparr>)) = fst (m h)"
  by (simp add: stateless_def)

lemma stateless_snd: "stateless m \<Longrightarrow> snd (m (h\<lparr>callerState := s\<rparr>)) = (snd (m h))\<lparr>callerState := s\<rparr>"
  by (simp add: stateless_def)

lemma stateless_callerState:
  assumes "stateless m"
  shows "callerState (snd (m h)) = callerState h"
proof -
  have "snd (m (h\<lparr>callerState := callerState h\<rparr>)) = (snd (m h))\<lparr>callerState := callerState h\<rparr>"
    using assms by (rule stateless_snd)
  then have "snd (m h) = (snd (m h))\<lparr>callerState := callerState h\<rparr>" by simp
  then have "callerState (snd (m h)) = callerState ((snd (m h))\<lparr>callerState := callerState h\<rparr>)"
    by (rule arg_cong)
  then show ?thesis by simp
qed

lemma stateless_newCalls:
  assumes "stateless m"
  shows "newCalls m (h\<lparr>callerState := s\<rparr>) = newCalls m h"
  by (simp add: newCalls_def stateless_snd[OF assms])

lemma stateless_checkCredential: "stateless (checkCredential r)"
  unfolding checkCredential_def
  by (auto simp: Let_def intro!: stateless_intros split: jsval.splits)

lemma stateless_checkType: "stateless (checkType t u)"
  unfolding checkType_def
  by (auto intro!: stateless_intros split: option.splits stringOrArray.splits)

lemma stateless_checkChallenge_Literal: "stateless (checkChallenge (Literal c) u)"
  unfolding checkChallenge_def by (auto intro!: stateless_intros)

lemma stateless_checkOrigin: "stateless (checkOrigin t u)"
  unfolding checkOrigin_def
  by (auto intro!: stateless_intros split: stringOrArray.splits)

lemma stateless_checkEncodings: "stateless (checkEncodings H u)"
  unfolding checkEncodings_def
  by (auto simp: Let_def intro!: stateless_intros)

lemma stateless_checkTokenBinding: "stateless (checkTokenBinding u)"
  unfolding checkTokenBinding_def
  by (auto simp: Let_def intro!: stateless_intros)

lemma stateless_checkFlags: "stateless (checkFlags x u)"
  unfolding checkFlags_def
  by (auto simp: Let_def intro!: stateless_intros split: option.splits)

lemma stateless_checkCounter: "stateless (checkCounter n)"
  unfolding checkCounter_def
  by (auto intro!: stateless_intros)

lemma stateless_reachChallengeCheck: "stateless (reachChallengeCheck H x)"
  unfolding reachChallengeCheck_def
  by (auto intro!: stateless_intros stateless_checkCredential stateless_checkType)

lemma stateless_authenticatorDataChecks: "stateless (authenticatorDataChecks H x L)"
  unfolding authenticatorDataChecks_def
  by (auto simp: Let_def intro!: stateless_intros stateless_checkTokenBinding)

lemma stateless_signedData: "stateless (signedData H L)"
  unfolding signedData_def
  by (auto simp: Let_def intro!: stateless_intros)

lemma stateless_buildResult: "stateless (buildResult H L)"
  unfolding buildResult_def
  by (auto simp: Let_def intro!: stateless_intros)

lemmas stateless_pieces =
  stateless_checkCredential stateless_checkType stateless_checkOrigin stateless_checkEncodings
  stateless_checkTokenBinding stateless_checkFlags stateless_checkCounter
  stateless_reachChallengeCheck stateless_authenticatorDataChecks stateless_signedData
  stateless_buildResult

lemma stateless_fromOriginCheck: "stateless (fromOriginCheck H x L)"
  unfolding fromOriginCheck_def fromEncodingChecks_def fromFlagCheck_def fromCounterCheck_def
  by (intro stateless_intros stateless_pieces)

lemma stateless_verify:
  assumes "expectedChallenge x = Literal c"
  shows "stateless (verifyAuthenticationResponse H x)"
  unfolding verify_fromChallengeCheck fromChallengeCheck_def[abs_def] assms
  by (intro stateless_intros stateless_pieces stateless_checkChallenge_Literal
      stateless_fromOriginCheck)

section \<open>Taking a sequence apart\<close>

lemma andThen_InlD:
  assumes "fst (andThen m f h) = Some (Inl e)"
  shows "fst (m h) = Some (Inl e) \<or> (\<exists>a h1. m h = (Some (Inr a), h1) \<and> fst (f a h1) = Some (Inl e))"
  using assms by (cases "m h") (auto simp: andThen_def split: option.splits sum.splits)

lemma andThen_InrD:
  assumes "fst (andThen m f h) = Some (Inr b)"
  shows "\<exists>a h1. m h = (Some (Inr a), h1) \<and> fst (f a h1) = Some (Inr b)"
  using assms by (cases "m h") (auto simp: andThen_def split: option.splits sum.splits)

lemma strictEq_JString [simp]: "strictEq v (JString s) \<longleftrightarrow> v = JString s"
  by (cases v) auto

lemma checkFlags_apply:
  "checkFlags x f h =
     (case advancedFIDOConfig x of
        Some a \<Rightarrow> if userVerification a = Some Required \<and> \<not> uv f
                  then Some (Inl UserVerificationRequired) else Some (Inr ())
      | None \<Rightarrow> if \<not> up f then Some (Inl UserNotPresent)
                else if requireUserVerification x \<noteq> Some False \<and> \<not> uv f
                then Some (Inl UserVerificationRequired) else Some (Inr ()), h)"
  by (auto simp: checkFlags_def js_defs split: option.splits)

lemma checkCounter_apply:
  "checkCounter n h =
     (if (n > 0 \<or> credCounter (credential h) > 0) \<and> n \<le> credCounter (credential h)
      then Some (Inl (CounterTooLow n (credCounter (credential h)))) else Some (Inr ()), h)"
  by (simp add: checkCounter_def js_defs)

lemma buildResult_apply:
  "buildResult H L h =
     (case parseBackupFlags H (flags (parsedAuthData L)) of
        Inl m \<Rightarrow> (Some (Inl (HelperThrew m)),
                   h\<lparr>calls := calls h @ [Call_parseBackupFlags (flags (parsedAuthData L))]\<rparr>)
      | Inr (dt, bu) \<Rightarrow>
          (case verifySignature H (signature L) (signatureBase L) (credPublicKey (credential h)) of
             Inl m \<Rightarrow> Some (Inl (HelperThrew m))
           | Inr v \<Rightarrow>
               Some (Inr \<lparr>verified = v,
                 authenticationInfo =
                   \<lparr>newCounter = counter (parsedAuthData L),
                    credentialID = credID (credential h),
                    userVerified = uv (flags (parsedAuthData L)),
                    credentialDeviceType = dt,
                    credentialBackedUp = bu,
                    authenticatorExtensionResults = extensionsData (parsedAuthData L),
                    origin = cdOrigin (clientDataJSON L),
                    rpID = matchedRPID L\<rparr>\<rparr>),
           h\<lparr>calls := calls h @ [Call_parseBackupFlags (flags (parsedAuthData L)),
               Call_verifySignature (signature L) (signatureBase L) (credPublicKey (credential h))]\<rparr>))"
  by (auto simp: buildResult_def js_defs Let_def split: sum.splits)

lemma fromCounterCheck_apply:
  "fromCounterCheck H L h =
     (if (counter (parsedAuthData L) > 0 \<or> credCounter (credential h) > 0) \<and>
         counter (parsedAuthData L) \<le> credCounter (credential h)
      then (Some (Inl (CounterTooLow (counter (parsedAuthData L)) (credCounter (credential h)))), h)
      else buildResult H L h)"
  by (simp add: fromCounterCheck_def checkCounter_apply andThen_def)



text \<open>When a piece yields a value.\<close>

lemma andThen_InrE:
  assumes "andThen m f h = (Some (Inr b), h2)"
  obtains a h1 where "m h = (Some (Inr a), h1)" and "f a h1 = (Some (Inr b), h2)"
  using assms by (cases "m h") (auto simp: andThen_def split: option.splits sum.splits)

lemma throw_Inr: "throw e h = (Some (Inr a), h1) \<longleftrightarrow> False"
  by (simp add: throw_def)

lemma ret_Inr: "ret a h = (Some (Inr b), h1) \<longleftrightarrow> b = a \<and> h1 = h"
  by (auto simp: ret_def)

lemma throwIf_Inr: "throwIf b e h = (Some (Inr u), h1) \<longleftrightarrow> \<not> b \<and> h1 = h"
  by (auto simp: throwIf_def throw_def ret_def)

lemma invoke_Inr:
  "invoke c v h = (Some (Inr a), h1) \<longleftrightarrow> a = v \<and> h1 = h\<lparr>calls := calls h @ [c]\<rparr>"
  by (auto simp: invoke_def)

lemma invokeE_Inr:
  "invokeE c r h = (Some (Inr a), h1) \<longleftrightarrow> r = Inr a \<and> h1 = h\<lparr>calls := calls h @ [c]\<rparr>"
  by (auto simp: invokeE_def split: sum.splits)

lemma await_Inr:
  "await p c h = (Some (Inr b), h1) \<longleftrightarrow>
     fst (p c (callerState h)) = Resolves b \<and>
     h1 = h\<lparr>calls := calls h @ [Call_expectedChallenge c],
            callerState := snd (p c (callerState h))\<rparr>"
  by (auto simp: await_def split: awaited.splits)

lemma readCredential_Inr:
  "readCredential f h = (Some (Inr a), h1) \<longleftrightarrow> a = f (credential h) \<and> h1 = h"
  by (auto simp: readCredential_def)

lemmas Inr_iffs = throw_Inr ret_Inr throwIf_Inr invoke_Inr invokeE_Inr await_Inr readCredential_Inr

lemma truthy_getProp: "truthy (getProp r name) \<Longrightarrow> truthy r"
  by (cases r) auto

lemma checkCredential_Inr:
  "checkCredential r h = (Some (Inr p), h1) \<longleftrightarrow>
     h1 = h \<and> \<not> nullish r \<and> truthy (getProp r ''id'') \<and>
     strictEq (getProp r ''id'') (getProp r ''rawId'') \<and>
     getProp r ''type'' = JString ''public-key'' \<and>
     fst p = getProp r ''response'' \<and> getProp (fst p) ''clientDataJSON'' = JString (snd p)"
  by (cases p)
    (auto simp: checkCredential_def Let_def Inr_iffs dest: truthy_getProp
      split: if_splits jsval.splits)

lemma checkType_Inr:
  "checkType e t h = (Some (Inr u), h1) \<longleftrightarrow> typeAccepted e t \<and> h1 = h"
  by (auto simp: checkType_def typeAccepted_def Inr_iffs split: option.splits stringOrArray.splits)

lemma reachChallengeCheck_Inr:
  assumes "reachChallengeCheck H x h = (Some (Inr L), h1)"
  shows "assertionResponse L = getProp (response x) ''response'' \<and>
         getProp (assertionResponse L) ''clientDataJSON'' = JString (clientDataString L) \<and>
         decodeClientDataJSON H (clientDataString L) = Inr (clientDataJSON L) \<and>
         typeAccepted (expectedType x) (cdType (clientDataJSON L)) \<and>
         \<not> nullish (response x) \<and> truthy (getProp (response x) ''id'') \<and>
         strictEq (getProp (response x) ''id'') (getProp (response x) ''rawId'') \<and>
         getProp (response x) ''type'' = JString ''public-key''"
  using assms unfolding reachChallengeCheck_def
  by (auto simp: Inr_iffs checkCredential_Inr checkType_Inr elim!: andThen_InrE)


lemma checkEncodings_Inr:
  "checkEncodings H ar h = (Some (Inr u), h1) \<longleftrightarrow>
     isBase64URL H (getProp ar ''authenticatorData'') = Inr True \<and>
     isBase64URL H (getProp ar ''signature'') = Inr True \<and>
     \<not> (truthy (getProp ar ''userHandle'') \<and> \<not> typeofString (getProp ar ''userHandle'')) \<and>
     h1 = h\<lparr>calls := calls h @ [Call_isBase64URL (getProp ar ''authenticatorData''),
                                   Call_isBase64URL (getProp ar ''signature'')]\<rparr>"
  by (auto simp: checkEncodings_def Let_def js_defs split: sum.splits)

lemma authenticatorDataChecks_Inr:
  assumes "authenticatorDataChecks H x L h = (Some (Inr L'), h1)"
  shows "assertionResponse L' = assertionResponse L \<and> clientDataString L' = clientDataString L \<and>
         clientDataJSON L' = clientDataJSON L \<and>
         toBuffer H (getProp (assertionResponse L) ''authenticatorData'') = Inr (authDataBuffer L') \<and>
         parseAuthenticatorData H (authDataBuffer L') = Inr (parsedAuthData L')"
  using assms unfolding authenticatorDataChecks_def
  by (auto simp: Inr_iffs Let_def elim!: andThen_InrE)

lemma signedData_Inr:
  assumes "signedData H L h = (Some (Inr L'), h1)"
  shows "assertionResponse L' = assertionResponse L \<and> clientDataString L' = clientDataString L \<and>
         clientDataJSON L' = clientDataJSON L \<and> authDataBuffer L' = authDataBuffer L \<and>
         parsedAuthData L' = parsedAuthData L \<and> matchedRPID L' = matchedRPID L \<and>
         (\<exists>clientDataBytes. toBuffer H (JString (clientDataString L)) = Inr clientDataBytes \<and>
            signatureBase L' = authDataBuffer L @ toHash H clientDataBytes) \<and>
         toBuffer H (getProp (assertionResponse L) ''signature'') = Inr (signature L')"
  using assms unfolding signedData_def
  by (auto simp: Inr_iffs Let_def elim!: andThen_InrE)

lemma reachEncodingChecks_Inr:
  assumes "reachEncodingChecks H x h = (Some (Inr L), h1)"
  shows "\<exists>h0. reachChallengeCheck H x h = (Some (Inr L), h0)"
  using assms unfolding reachEncodingChecks_def
  by (auto simp: Inr_iffs elim!: andThen_InrE)

lemma reachFlagCheck_Inr:
  assumes "reachFlagCheck H x h = (Some (Inr L), h1)"
  shows "assertionResponse L = getProp (response x) ''response'' \<and>
         getProp (assertionResponse L) ''clientDataJSON'' = JString (clientDataString L) \<and>
         toBuffer H (getProp (assertionResponse L) ''authenticatorData'') = Inr (authDataBuffer L) \<and>
         parseAuthenticatorData H (authDataBuffer L) = Inr (parsedAuthData L)"
  using assms unfolding reachFlagCheck_def
  by (auto elim!: andThen_InrE dest!: reachEncodingChecks_Inr reachChallengeCheck_Inr
        authenticatorDataChecks_Inr)

lemma reachCounterCheck_Inr:
  assumes "reachCounterCheck H x h = (Some (Inr L), h1)"
  shows "assertionResponse L = getProp (response x) ''response'' \<and>
         getProp (assertionResponse L) ''clientDataJSON'' = JString (clientDataString L) \<and>
         toBuffer H (getProp (assertionResponse L) ''authenticatorData'') = Inr (authDataBuffer L) \<and>
         parseAuthenticatorData H (authDataBuffer L) = Inr (parsedAuthData L) \<and>
         (\<exists>clientDataBytes. toBuffer H (JString (clientDataString L)) = Inr clientDataBytes \<and>
            signatureBase L = authDataBuffer L @ toHash H clientDataBytes) \<and>
         toBuffer H (getProp (assertionResponse L) ''signature'') = Inr (signature L)"
  using assms unfolding reachCounterCheck_def
  by (auto elim!: andThen_InrE dest!: reachFlagCheck_Inr signedData_Inr)

lemma verify_at_counterCheck:
  "reachCounterCheck H x h = (Some (Inr L), h1) \<Longrightarrow>
   verifyAuthenticationResponse H x h = fromCounterCheck H L h1"
  by (simp add: verifyAuthenticationResponse_def andThen_def)

lemma verify_at_flagCheck:
  "reachFlagCheck H x h = (Some (Inr L), h1) \<Longrightarrow>
   verifyAuthenticationResponse H x h = fromFlagCheck H x L h1"
  by (simp add: verify_fromFlagCheck andThen_def)

lemma verify_at_encodingChecks:
  "reachEncodingChecks H x h = (Some (Inr L), h1) \<Longrightarrow>
   verifyAuthenticationResponse H x h = fromEncodingChecks H x L h1"
  by (simp add: verify_fromEncodingChecks andThen_def)

lemma verify_at_challengeCheck:
  "reachChallengeCheck H x h = (Some (Inr L), h1) \<Longrightarrow>
   verifyAuthenticationResponse H x h = fromChallengeCheck H x L h1"
  by (simp add: verify_fromChallengeCheck andThen_def)


lemma newCalls_apply: "snd (m h) = h\<lparr>calls := calls h @ cs\<rparr> \<Longrightarrow> newCalls m h = cs"
  by (simp add: newCalls_def)

lemma no_flag_error_rest:
  "confined (\<lambda>c. True) (\<lambda>e. e \<noteq> UserNotPresent \<and> e \<noteq> UserVerificationRequired)
     (andThen (signedData H L) (fromCounterCheck H))"
  unfolding fromCounterCheck_def
  by (intro confined_intros confined_pieces) simp_all

lemma no_flag_error_reachFlagCheck:
  "confined (\<lambda>c. True) (\<lambda>e. e \<noteq> UserNotPresent \<and> e \<noteq> UserVerificationRequired)
     (reachFlagCheck H x)"
  unfolding reachFlagCheck_def reachEncodingChecks_def
  by (intro confined_intros confined_pieces) simp_all



lemma reachCounterCheck_verifySignature:
  "reachCounterCheck (H\<lparr>verifySignature := V\<rparr>) x = reachCounterCheck H x"
  by (simp add: reachCounterCheck_def reachFlagCheck_def reachEncodingChecks_def
      reachChallengeCheck_def authenticatorDataChecks_def signedData_def checkEncodings_def)


lemma checkOrigin_apply:
  "checkOrigin e g h =
     (if originAccepted e g then Some (Inr ()) else Some (Inl (originError e g)), h)"
  by (auto simp: checkOrigin_def originAccepted_def originError_def js_defs
      split: stringOrArray.splits)

lemma checkChallenge_apply:
  "checkChallenge e c h =
     (case e of
        Literal l \<Rightarrow> (if c = l then Some (Inr ()) else Some (Inl (UnexpectedChallenge c l)), h)
      | Verifier p \<Rightarrow>
          (case fst (p c (callerState h)) of
             Resolves b \<Rightarrow> if b then Some (Inr ()) else Some (Inl (ChallengeVerifierReturnedFalse c))
           | Rejects m \<Rightarrow> Some (Inl (VerifierRejected m))
           | NeverSettles \<Rightarrow> None,
           h\<lparr>calls := calls h @ [Call_expectedChallenge c],
             callerState := snd (p c (callerState h))\<rparr>))"
  by (auto simp: checkChallenge_def js_defs split: expectedChallenge.splits awaited.splits)

lemma no_verifySignature_reachCounterCheck:
  "confined (\<lambda>c. \<not> isVerifySignature c) (\<lambda>e. True) (reachCounterCheck H x)"
  unfolding reachCounterCheck_def reachFlagCheck_def reachEncodingChecks_def
  by (intro confined_intros confined_pieces) simp_all

lemma no_verifySignature_reachChallengeCheck:
  "confined (\<lambda>c. \<not> isVerifySignature c) (\<lambda>e. True) (reachChallengeCheck H x)"
  by (intro confined_intros confined_pieces) simp_all

lemma grows_fromFlagCheck: "confined (\<lambda>c. True) (\<lambda>e. True) (fromFlagCheck H x L)"
  unfolding fromFlagCheck_def
  by (intro confined_intros confined_pieces grows_fromCounterCheck) simp_all

lemma grows_fromEncodingChecks: "confined (\<lambda>c. True) (\<lambda>e. True) (fromEncodingChecks H x L)"
  unfolding fromEncodingChecks_def
  by (intro confined_intros confined_pieces grows_fromFlagCheck) simp_all

lemma grows_fromChallengeCheck: "confined (\<lambda>c. True) (\<lambda>e. True) (fromChallengeCheck H x L)"
  unfolding fromChallengeCheck_def fromOriginCheck_def
  by (intro confined_intros confined_pieces grows_fromEncodingChecks) simp_all

lemma filter_none: "list_all (\<lambda>c. \<not> P c) cs \<Longrightarrow> filter P cs = []"
  by (induction cs) auto

lemma newCalls_fromCounterCheck:
  "newCalls (fromCounterCheck H L) h =
     (if (counter (parsedAuthData L) > 0 \<or> credCounter (credential h) > 0) \<and>
         counter (parsedAuthData L) \<le> credCounter (credential h)
      then []
      else case parseBackupFlags H (flags (parsedAuthData L)) of
        Inl m \<Rightarrow> [Call_parseBackupFlags (flags (parsedAuthData L))]
      | Inr p \<Rightarrow> [Call_parseBackupFlags (flags (parsedAuthData L)),
           Call_verifySignature (signature L) (signatureBase L) (credPublicKey (credential h))])"
  by (auto simp: newCalls_def fromCounterCheck_apply buildResult_apply split: sum.splits prod.splits)


section \<open>Related computations\<close>

lemma relatedI:
  fixes m :: "('y, 'a) js" and n :: "('z, 'b) js"
  assumes "\<And>(h :: 'y heap) (k :: 'z heap).
      R (credential h) (credential k) \<Longrightarrow> callerState h = callerState k \<Longrightarrow>
      rel_option (rel_sum (=) Q) (fst (m h)) (fst (n k)) \<and>
      snd (m h) = h\<lparr>calls := calls h @ cs, callerState := st (callerState h)\<rparr> \<and>
      snd (n k) = k\<lparr>calls := calls k @ cs, callerState := st (callerState k)\<rparr>"
  shows "related R Q m n"
  unfolding related_def
proof (intro allI impI)
  fix h :: "'y heap" and k :: "'z heap"
  assume a: "R (credential h) (credential k) \<and> callerState h = callerState k"
  with assms[of h k] have "rel_option (rel_sum (=) Q) (fst (m h)) (fst (n k))"
    and "snd (m h) = h\<lparr>calls := calls h @ cs, callerState := st (callerState h)\<rparr>"
    and "snd (n k) = k\<lparr>calls := calls k @ cs, callerState := st (callerState h)\<rparr>"
    by simp_all
  then show "rel_option (rel_sum (=) Q) (fst (m h)) (fst (n k)) \<and>
      (\<exists>cs s. snd (m h) = h\<lparr>calls := calls h @ cs, callerState := s\<rparr> \<and>
              snd (n k) = k\<lparr>calls := calls k @ cs, callerState := s\<rparr>)"
    by blast
qed

lemma related_throw: "related R Q (throw e) (throw e)"
  by (rule relatedI[where cs = "[]" and st = id]) (simp add: throw_def)

lemma related_ret: "Q a b \<Longrightarrow> related R Q (ret a) (ret b)"
  by (rule relatedI[where cs = "[]" and st = id]) (simp add: ret_def)

lemma related_throwIf: "related R (=) (throwIf b e) (throwIf b e)"
  unfolding throwIf_def by (simp add: related_throw related_ret)

lemma related_invoke: "related R (=) (invoke c v) (invoke c v)"
  by (rule relatedI[where cs = "[c]" and st = id]) (simp add: invoke_def)

lemma related_invokeE: "related R (=) (invokeE c r) (invokeE c r)"
  by (rule relatedI[where cs = "[c]" and st = id]) (simp add: invokeE_def split: sum.splits)

lemma related_await: "related R (=) (await p c) (await p c)"
  by (rule relatedI[where cs = "[Call_expectedChallenge c]" and st = "\<lambda>s. snd (p c s)"])
    (simp add: await_def split: awaited.splits)

lemma related_readCredential:
  "(\<And>c d. R c d \<Longrightarrow> Q (f c) (g d)) \<Longrightarrow> related R Q (readCredential f) (readCredential g)"
  by (rule relatedI[where cs = "[]" and st = id]) (simp add: readCredential_def)

lemma related_andThen:
  fixes m :: "('y, 'a) js" and n :: "('z, 'b) js"
    and f :: "'a \<Rightarrow> ('y, 'c) js" and g :: "'b \<Rightarrow> ('z, 'd) js"
  assumes m: "related R Q m n" and f: "\<And>a b. Q a b \<Longrightarrow> related R Q' (f a) (g b)"
  shows "related R Q' (andThen m f) (andThen n g)"
  unfolding related_def
proof (intro allI impI)
  fix h :: "'y heap" and k :: "'z heap"
  assume s: "R (credential h) (credential k) \<and> callerState h = callerState k"
  from m s obtain cs t where
    o: "rel_option (rel_sum (=) Q) (fst (m h)) (fst (n k))" and
    hh: "snd (m h) = h\<lparr>calls := calls h @ cs, callerState := t\<rparr>" and
    kk: "snd (n k) = k\<lparr>calls := calls k @ cs, callerState := t\<rparr>"
    unfolding related_def by blast
  let ?goal = "rel_option (rel_sum (=) Q') (fst (andThen m f h)) (fst (andThen n g k)) \<and>
        (\<exists>cs s. snd (andThen m f h) = h\<lparr>calls := calls h @ cs, callerState := s\<rparr> \<and>
                snd (andThen n g k) = k\<lparr>calls := calls k @ cs, callerState := s\<rparr>)"
  have stop: ?goal
    if "fst (andThen m f h) = map_option (map_sum id undefined) (fst (m h))"
      "snd (andThen m f h) = snd (m h)"
      "fst (andThen n g k) = map_option (map_sum id undefined) (fst (n k))"
      "snd (andThen n g k) = snd (n k)"
      "rel_option (rel_sum (=) Q')
         (map_option (map_sum id undefined) (fst (m h)))
         (map_option (map_sum id undefined) (fst (n k)))"
  proof -
    have "\<exists>cs s. snd (andThen m f h) = h\<lparr>calls := calls h @ cs, callerState := s\<rparr> \<and>
                snd (andThen n g k) = k\<lparr>calls := calls k @ cs, callerState := s\<rparr>"
      unfolding that(2,4) using hh kk by blast
    with that(1,3,5) show ?thesis by simp
  qed
  show ?goal
  proof (cases "fst (m h)")
    case None
    with o have nk: "fst (n k) = None" by (cases "fst (n k)") auto
    have "\<And>a. fst (m h) \<noteq> Some (Inr a)" "\<And>b. fst (n k) \<noteq> Some (Inr b)"
      using None nk by simp_all
    then show ?thesis
      using andThen_not_Inr[of m h f] andThen_not_Inr[of n k g] None nk
      by (intro stop) simp_all
  next
    case (Some u)
    with o obtain w where w: "fst (n k) = Some w" and uw: "rel_sum (=) Q u w"
      by (cases "fst (n k)") auto
    show ?thesis
    proof (cases u)
      case (Inl e)
      with uw have we: "w = Inl e" by (cases w) auto
      have "\<And>a. fst (m h) \<noteq> Some (Inr a)" "\<And>b. fst (n k) \<noteq> Some (Inr b)"
        using Some Inl w we by simp_all
      then show ?thesis
        using andThen_not_Inr[of m h f] andThen_not_Inr[of n k g] Some Inl w we
        by (intro stop) simp_all
    next
      case (Inr a)
      with uw obtain b where b: "w = Inr b" and q: "Q a b" by (cases w) auto
      let ?h = "h\<lparr>calls := calls h @ cs, callerState := t\<rparr>"
      let ?k = "k\<lparr>calls := calls k @ cs, callerState := t\<rparr>"
      have "R (credential ?h) (credential ?k) \<and> callerState ?h = callerState ?k"
        using s by simp
      with f[OF q] obtain ds t' where
        o': "rel_option (rel_sum (=) Q') (fst (f a ?h)) (fst (g b ?k))" and
        hh': "snd (f a ?h) = ?h\<lparr>calls := calls ?h @ ds, callerState := t'\<rparr>" and
        kk': "snd (g b ?k) = ?k\<lparr>calls := calls ?k @ ds, callerState := t'\<rparr>"
        unfolding related_def by blast
      have mh: "m h = (Some (Inr a), ?h)" using Some Inr hh by (simp add: prod_eq_iff)
      have nk: "n k = (Some (Inr b), ?k)" using w b kk by (simp add: prod_eq_iff)
      have eq: "andThen m f h = f a ?h" "andThen n g k = g b ?k"
        using mh nk by (simp_all add: andThen_def)
      have "snd (andThen m f h) = h\<lparr>calls := calls h @ (cs @ ds), callerState := t'\<rparr> \<and>
          snd (andThen n g k) = k\<lparr>calls := calls k @ (cs @ ds), callerState := t'\<rparr>"
        unfolding eq hh' kk' by simp
      then have "\<exists>cs s. snd (andThen m f h) = h\<lparr>calls := calls h @ cs, callerState := s\<rparr> \<and>
                snd (andThen n g k) = k\<lparr>calls := calls k @ cs, callerState := s\<rparr>"
        by blast
      with o' show ?thesis unfolding eq by blast
    qed
  qed
qed

lemma related_andThen_eq:
  fixes m :: "('y, 'a) js" and n :: "('z, 'a) js"
    and f :: "'a \<Rightarrow> ('y, 'c) js" and g :: "'a \<Rightarrow> ('z, 'd) js"
  assumes "related R (=) m n" and "\<And>a. related R Q' (f a) (g a)"
  shows "related R Q' (andThen m f) (andThen n g)"
  using assms(1) by (rule related_andThen) (simp add: assms(2))

lemmas related_intros =
  related_throw related_throwIf related_invoke related_invokeE related_await related_andThen_eq

lemma related_checkCredential: "related R (=) (checkCredential r) (checkCredential r)"
  unfolding checkCredential_def
  by (auto simp: Let_def intro!: related_intros related_ret split: jsval.splits)

lemma related_checkType: "related R (=) (checkType t u) (checkType t u)"
  unfolding checkType_def
  by (auto intro!: related_intros split: option.splits stringOrArray.splits)

lemma related_checkChallenge: "related R (=) (checkChallenge t u) (checkChallenge t u)"
  unfolding checkChallenge_def
  by (auto intro!: related_intros split: expectedChallenge.splits)

lemma related_checkOrigin: "related R (=) (checkOrigin t u) (checkOrigin t u)"
  unfolding checkOrigin_def
  by (auto intro!: related_intros split: stringOrArray.splits)

lemma related_checkEncodings: "related R (=) (checkEncodings H u) (checkEncodings H u)"
  unfolding checkEncodings_def
  by (auto simp: Let_def intro!: related_intros)

lemma related_checkTokenBinding: "related R (=) (checkTokenBinding u) (checkTokenBinding u)"
  unfolding checkTokenBinding_def
  by (auto simp: Let_def intro!: related_intros related_ret)

lemma related_checkFlags: "related R (=) (checkFlags x u) (checkFlags x u)"
  unfolding checkFlags_def
  by (auto simp: Let_def intro!: related_intros related_ret split: option.splits)

lemma related_reachChallengeCheck:
  "related R (=) (reachChallengeCheck H x) (reachChallengeCheck H x)"
  unfolding reachChallengeCheck_def
  by (auto intro!: related_intros related_ret related_checkCredential related_checkType)

lemma related_authenticatorDataChecks:
  "related R (=) (authenticatorDataChecks H x L) (authenticatorDataChecks H x L)"
  unfolding authenticatorDataChecks_def
  by (auto simp: Let_def intro!: related_intros related_ret related_checkTokenBinding)

lemma related_signedData: "related R (=) (signedData H L) (signedData H L)"
  unfolding signedData_def
  by (auto simp: Let_def intro!: related_intros related_ret)

lemma related_reachCounterCheck:
  "related R (=) (reachCounterCheck H x) (reachCounterCheck H x)"
  unfolding reachCounterCheck_def reachFlagCheck_def reachEncodingChecks_def
  by (intro related_intros related_ret related_reachChallengeCheck related_checkChallenge
      related_checkOrigin related_checkEncodings related_authenticatorDataChecks
      related_checkFlags related_signedData) simp

lemma related_checkCounter_gen:
  assumes "\<And>c d. R c d \<Longrightarrow> credCounter c = credCounter d"
  shows "related R (=) (checkCounter n) (checkCounter n)"
  unfolding checkCounter_def
  by (intro related_andThen[where Q = "(=)"] related_readCredential)
    (auto simp: assms intro: related_throwIf)

lemma related_checkCounter:
  "related sameKeyAndCounter (=) (checkCounter n) (checkCounter n)"
  by (rule related_checkCounter_gen) (simp add: sameKeyAndCounter_def)

lemma related_buildResult:
  "related sameKeyAndCounter sameButID (buildResult H L) (buildResult H L)"
  unfolding buildResult_def Let_def
  apply (rule related_andThen_eq, rule related_invokeE)
  apply (simp add: split_def)
  apply (rule related_andThen[where Q = "(=)"], rule related_readCredential)
   apply (simp add: sameKeyAndCounter_def)
  apply simp
  apply (rule related_andThen_eq, rule related_invokeE)
  apply (rule related_andThen[where Q = "\<lambda>a b. True"], rule related_readCredential, simp)
  apply (rule related_ret)
  apply (simp add: sameButID_def)
  done

lemma related_verify:
  "related sameKeyAndCounter sameButID
     (verifyAuthenticationResponse H x) (verifyAuthenticationResponse H x)"
  unfolding verifyAuthenticationResponse_def fromCounterCheck_def
  by (intro related_andThen_eq related_reachCounterCheck related_checkCounter related_buildResult)

lemma related_outcome:
  assumes "related R Q m n" and "R (credential h) (credential k)"
    and "callerState h = callerState k"
  shows "rel_option (rel_sum (=) Q) (fst (m h)) (fst (n k))"
  using assms unfolding related_def by blast

lemma related_newCalls:
  assumes "related R Q m n" and "R (credential h) (credential k)"
    and "callerState h = callerState k"
  shows "newCalls m h = newCalls n k"
proof -
  from assms obtain cs s where
    "snd (m h) = h\<lparr>calls := calls h @ cs, callerState := s\<rparr>" and
    "snd (n k) = k\<lparr>calls := calls k @ cs, callerState := s\<rparr>"
    unfolding related_def by blast
  then show ?thesis by (simp add: newCalls_def)
qed

lemma related_callerState:
  assumes "related R Q m n" and "R (credential h) (credential k)"
    and "callerState h = callerState k"
  shows "callerState (snd (m h)) = callerState (snd (n k))"
proof -
  from assms obtain cs s where
    "snd (m h) = h\<lparr>calls := calls h @ cs, callerState := s\<rparr>" and
    "snd (n k) = k\<lparr>calls := calls k @ cs, callerState := s\<rparr>"
    unfolding related_def by blast
  then show ?thesis by simp
qed

lemma result_credentialID:
  assumes "fst (verifyAuthenticationResponse H x h) = Some (Inr r)"
  shows "credentialID (authenticationInfo r) = credID (credential h)"
proof -
  from assms have "fst (andThen (reachCounterCheck H x) (fromCounterCheck H) h) = Some (Inr r)"
    by (simp add: verifyAuthenticationResponse_def)
  then have "\<exists>L h1. reachCounterCheck H x h = (Some (Inr L), h1) \<and>
      fst (fromCounterCheck H L h1) = Some (Inr r)"
    by (rule andThen_InrD)
  then obtain L h1 where
    r: "reachCounterCheck H x h = (Some (Inr L), h1)" and
    f: "fst (fromCounterCheck H L h1) = Some (Inr r)"
    by blast
  have c: "credential h1 = credential h"
    using confined_credential[OF grows_reachCounterCheck, of H x h] r by simp
  from f show ?thesis
    by (auto simp: fromCounterCheck_apply buildResult_apply c split: if_splits sum.splits prod.splits)
qed

lemma same_outcome:
  fixes h :: "'y heap" and k :: "'z heap"
  assumes s: "sameFields (credential h) (credential k)"
    and st: "callerState h = callerState k"
  shows "fst (verifyAuthenticationResponse H x h) = fst (verifyAuthenticationResponse H x k)"
proof -
  have kc: "sameKeyAndCounter (credential h) (credential k)"
    using s by (simp add: sameFields_def sameKeyAndCounter_def)
  have rel: "rel_option (rel_sum (=) sameButID)
      (fst (verifyAuthenticationResponse H x h)) (fst (verifyAuthenticationResponse H x k))"
    by (rule related_outcome[OF related_verify kc st])
  show ?thesis
  proof (cases "fst (verifyAuthenticationResponse H x h)")
    case None
    with rel show ?thesis by (cases "fst (verifyAuthenticationResponse H x k)") auto
  next
    case (Some u)
    with rel obtain w where w: "fst (verifyAuthenticationResponse H x k) = Some w"
      and uw: "rel_sum (=) sameButID u w"
      by (cases "fst (verifyAuthenticationResponse H x k)") auto
    show ?thesis
    proof (cases u)
      case (Inl e)
      with uw Some w show ?thesis by (cases w) auto
    next
      case (Inr r)
      with uw obtain r' where r': "w = Inr r'" and sb: "sameButID r r'" by (cases w) auto
      have "credentialID (authenticationInfo r) = credID (credential h)"
        using result_credentialID Some Inr by blast
      moreover have "credentialID (authenticationInfo r') = credID (credential k)"
        using result_credentialID w r' by blast
      ultimately have "r' = r"
        using sb s by (simp add: sameButID_def sameFields_def)
      with Some Inr w r' show ?thesis by simp
    qed
  qed
qed


lemma no_expectedChallenge_reachChallengeCheck:
  "confined (\<lambda>c. \<not> isExpectedChallenge c) (\<lambda>e. True) (reachChallengeCheck H x)"
  by (intro confined_intros confined_pieces) simp_all

lemma no_expectedChallenge_fromOriginCheck:
  "confined (\<lambda>c. \<not> isExpectedChallenge c) (\<lambda>e. True) (fromOriginCheck H x L)"
  unfolding fromOriginCheck_def fromEncodingChecks_def fromFlagCheck_def fromCounterCheck_def
  by (intro confined_intros confined_pieces) simp_all

lemma related_buildResult_eq: "related (=) (=) (buildResult H L) (buildResult H L)"
  unfolding buildResult_def Let_def
  apply (rule related_andThen_eq, rule related_invokeE)
  apply (simp add: split_def)
  apply (rule related_andThen_eq, rule related_readCredential, simp)
  apply (rule related_andThen_eq, rule related_invokeE)
  apply (rule related_andThen_eq, rule related_readCredential, simp)
  apply (rule related_ret)
  apply simp
  done

lemma related_fromOriginCheck_eq:
  "related (=) (=) (fromOriginCheck H x L) (fromOriginCheck H x L)"
  unfolding fromOriginCheck_def fromEncodingChecks_def fromFlagCheck_def fromCounterCheck_def
  by (intro related_intros related_checkOrigin related_checkEncodings
      related_authenticatorDataChecks related_checkFlags related_signedData
      related_checkCounter_gen related_buildResult_eq) simp

lemma fromOriginCheck_log:
  assumes "credential k = credential h"
  shows "fst (fromOriginCheck H x L k) = fst (fromOriginCheck H x L h)"
proof -
  let ?k = "k\<lparr>callerState := callerState h\<rparr>"
  have "fst (fromOriginCheck H x L ?k) = fst (fromOriginCheck H x L k)"
    by (rule stateless_fst[OF stateless_fromOriginCheck])
  moreover have "fst (fromOriginCheck H x L ?k) = fst (fromOriginCheck H x L h)"
    using related_outcome[OF related_fromOriginCheck_eq, of ?k h H x L] assms
    by (simp add: option.rel_eq sum.rel_eq)
  ultimately show ?thesis by simp
qed

lemma reachChallengeCheck_expectedChallenge:
  "reachChallengeCheck H (x\<lparr>expectedChallenge := e\<rparr>) = reachChallengeCheck H x"
  by (simp add: reachChallengeCheck_def)

lemma checkFlags_expectedChallenge:
  "checkFlags (x\<lparr>expectedChallenge := e\<rparr>) f = checkFlags x f"
  by (simp add: checkFlags_def cong: option.case_cong)

lemma authenticatorDataChecks_expectedChallenge:
  "authenticatorDataChecks H (x\<lparr>expectedChallenge := e\<rparr>) L = authenticatorDataChecks H x L"
  by (simp add: authenticatorDataChecks_def)

lemma fromOriginCheck_expectedChallenge:
  "fromOriginCheck H (x\<lparr>expectedChallenge := e\<rparr>) L = fromOriginCheck H x L"
  by (simp add: fromOriginCheck_def fromEncodingChecks_def fromFlagCheck_def[abs_def]
      checkFlags_expectedChallenge authenticatorDataChecks_expectedChallenge)

lemma fromChallengeCheck_Verifier:
  assumes "expectedChallenge x = Verifier p"
  shows "fromChallengeCheck H x L h =
     (case fst (p (cdChallenge (clientDataJSON L)) (callerState h)) of
        Resolves b \<Rightarrow>
          if b then fromOriginCheck H x L
                 (h\<lparr>calls := calls h @ [Call_expectedChallenge (cdChallenge (clientDataJSON L))],
                    callerState := snd (p (cdChallenge (clientDataJSON L)) (callerState h))\<rparr>)
          else (Some (Inl (ChallengeVerifierReturnedFalse (cdChallenge (clientDataJSON L)))),
                h\<lparr>calls := calls h @ [Call_expectedChallenge (cdChallenge (clientDataJSON L))],
                  callerState := snd (p (cdChallenge (clientDataJSON L)) (callerState h))\<rparr>)
      | Rejects m \<Rightarrow> (Some (Inl (VerifierRejected m)),
                h\<lparr>calls := calls h @ [Call_expectedChallenge (cdChallenge (clientDataJSON L))],
                  callerState := snd (p (cdChallenge (clientDataJSON L)) (callerState h))\<rparr>)
      | NeverSettles \<Rightarrow> (None,
                h\<lparr>calls := calls h @ [Call_expectedChallenge (cdChallenge (clientDataJSON L))],
                  callerState := snd (p (cdChallenge (clientDataJSON L)) (callerState h))\<rparr>))"
  by (simp add: fromChallengeCheck_def andThen_def checkChallenge_apply assms split: awaited.splits)

lemma fromChallengeCheck_Literal:
  "expectedChallenge x = Literal c \<Longrightarrow> cdChallenge (clientDataJSON L) = c \<Longrightarrow>
   fromChallengeCheck H x L h = fromOriginCheck H x L h"
  by (simp add: fromChallengeCheck_def andThen_def checkChallenge_apply)

lemma newCalls_fromChallengeCheck_Verifier:
  assumes "expectedChallenge x = Verifier p"
  shows "\<exists>cs. newCalls (fromChallengeCheck H x L) h =
            Call_expectedChallenge (cdChallenge (clientDataJSON L)) # cs \<and>
          list_all (\<lambda>c. \<not> isExpectedChallenge c) cs \<and>
          (fst (p (cdChallenge (clientDataJSON L)) (callerState h)) \<noteq> Resolves True \<longrightarrow> cs = [])"
proof -
  let ?c = "cdChallenge (clientDataJSON L)"
  let ?h = "h\<lparr>calls := calls h @ [Call_expectedChallenge ?c],
               callerState := snd (p ?c (callerState h))\<rparr>"
  show ?thesis
  proof (cases "fst (p ?c (callerState h)) = Resolves True")
    case True
    have "calls (snd (fromOriginCheck H x L ?h)) = calls ?h @ newCalls (fromOriginCheck H x L) ?h"
      by (rule confined_calls[OF no_expectedChallenge_fromOriginCheck])
    then have "newCalls (fromChallengeCheck H x L) h =
        Call_expectedChallenge ?c # newCalls (fromOriginCheck H x L) ?h"
      using True by (simp add: newCalls_def[of "fromChallengeCheck H x L"]
          fromChallengeCheck_Verifier[OF assms])
    moreover have "list_all (\<lambda>c. \<not> isExpectedChallenge c) (newCalls (fromOriginCheck H x L) ?h)"
      by (rule confined_newCalls[OF no_expectedChallenge_fromOriginCheck])
    ultimately show ?thesis using True by simp
  next
    case False
    then have "newCalls (fromChallengeCheck H x L) h = [Call_expectedChallenge ?c]"
      by (auto simp: newCalls_def fromChallengeCheck_Verifier[OF assms] split: awaited.splits)
    with False show ?thesis by simp
  qed
qed


lemma checkCredential_apply:
  assumes "\<not> nullish r"
  shows "checkCredential r h =
     (if \<not> truthy (getProp r ''id'') then Some (Inl MissingCredentialID)
      else if \<not> strictEq (getProp r ''id'') (getProp r ''rawId'')
        then Some (Inl CredentialIDNotBase64URL)
      else if getProp r ''type'' \<noteq> JString ''public-key''
        then Some (Inl (UnexpectedCredentialType (getProp r ''type'')))
      else case getProp (getProp r ''response'') ''clientDataJSON'' of
             JString cdj \<Rightarrow> Some (Inr (getProp r ''response'', cdj))
           | _ \<Rightarrow> Some (Inl ClientDataJSONNotString), h)"
  using assms
  by (auto simp: checkCredential_def Let_def throw_def ret_def dest: truthy_getProp
      split: jsval.splits)

lemma checkType_apply:
  "checkType e t h =
     (if typeAccepted e t then Some (Inr ())
      else Some (Inl (case e of
          Some (Many ts) \<Rightarrow> UnexpectedResponseTypeOneOf t ts
        | Some (One u) \<Rightarrow> if u \<noteq> [] then UnexpectedResponseTypeExpected t u
                          else UnexpectedResponseType t
        | None \<Rightarrow> UnexpectedResponseType t)), h)"
  by (auto simp: checkType_def typeAccepted_def throwIf_def throw_def ret_def
      split: option.splits stringOrArray.splits)

lemma fst_checkEncodings:
  "fst (checkEncodings H ar h) =
     (case isBase64URL H (getProp ar ''authenticatorData'') of
        Inl m \<Rightarrow> Some (Inl (HelperThrew m))
      | Inr ok1 \<Rightarrow>
          if \<not> ok1 then Some (Inl AuthenticatorDataNotBase64URL)
          else case isBase64URL H (getProp ar ''signature'') of
            Inl m \<Rightarrow> Some (Inl (HelperThrew m))
          | Inr ok2 \<Rightarrow>
              if \<not> ok2 then Some (Inl SignatureNotBase64URL)
              else if truthy (getProp ar ''userHandle'') \<and>
                      \<not> typeofString (getProp ar ''userHandle'')
                then Some (Inl UserHandleNotString)
              else Some (Inr ()))"
  by (simp add: checkEncodings_def Let_def js_defs split: sum.splits)

lemma no_credentialError_fromChallengeCheck:
  "confined (\<lambda>c. True) (\<lambda>e. \<not> credentialError e) (fromChallengeCheck H x L)"
  unfolding fromChallengeCheck_def fromOriginCheck_def fromEncodingChecks_def fromFlagCheck_def
    fromCounterCheck_def
  by (intro confined_intros confined_pieces) (simp_all add: credentialError_def)

lemma no_credentialError_decoding:
  "confined (\<lambda>c. True) (\<lambda>e. \<not> credentialError e)
     (andThen (invokeE (Call_decodeClientDataJSON cdj) (decodeClientDataJSON H cdj))
        (\<lambda>clientDataJSON'.
      andThen (checkType (expectedType x) (cdType clientDataJSON'))
        (\<lambda>_. ret \<lparr>assertionResponse = ar, clientDataString = cdj,
                   clientDataJSON = clientDataJSON'\<rparr>)))"
  by (intro confined_intros confined_pieces) (simp_all add: credentialError_def)

lemma no_encodingError_reachEncodingChecks:
  "confined (\<lambda>c. True) (\<lambda>e. \<not> encodingError e) (reachEncodingChecks H x)"
  unfolding reachEncodingChecks_def
  by (intro confined_intros confined_pieces) (simp_all add: encodingError_def)

lemma no_encodingError_rest:
  "confined (\<lambda>c. True) (\<lambda>e. \<not> encodingError e)
     (andThen (authenticatorDataChecks H x L) (fromFlagCheck H x))"
  unfolding fromFlagCheck_def fromCounterCheck_def
  by (intro confined_intros confined_pieces) (simp_all add: encodingError_def)

lemma verify_credentialError:
  assumes e: "credentialError e"
  shows "fst (verifyAuthenticationResponse H x h) = Some (Inl e) \<longleftrightarrow>
         fst (checkCredential (response x) h) = Some (Inl e)"
proof
  assume "fst (checkCredential (response x) h) = Some (Inl e)"
  then have "fst (reachChallengeCheck H x h) = Some (Inl e)"
    by (cases "checkCredential (response x) h") (simp add: reachChallengeCheck_def andThen_def)
  then show "fst (verifyAuthenticationResponse H x h) = Some (Inl e)"
    by (cases "reachChallengeCheck H x h") (simp add: verify_fromChallengeCheck andThen_def)
next
  assume "fst (verifyAuthenticationResponse H x h) = Some (Inl e)"
  then have "fst (andThen (reachChallengeCheck H x) (fromChallengeCheck H x) h) = Some (Inl e)"
    by (simp add: verify_fromChallengeCheck)
  then have "fst (reachChallengeCheck H x h) = Some (Inl e) \<or>
      (\<exists>L h1. reachChallengeCheck H x h = (Some (Inr L), h1) \<and>
         fst (fromChallengeCheck H x L h1) = Some (Inl e))"
    by (rule andThen_InlD)
  moreover have "fst (fromChallengeCheck H x L h1) \<noteq> Some (Inl e)" for L h1
    using confined_error[OF no_credentialError_fromChallengeCheck, of H x L h1 e] e by blast
  ultimately have "fst (reachChallengeCheck H x h) = Some (Inl e)" by blast
  then have "fst (checkCredential (response x) h) = Some (Inl e) \<or>
      (\<exists>p h1. checkCredential (response x) h = (Some (Inr p), h1) \<and>
         fst ((case p of (ar, cdj) \<Rightarrow>
           andThen (invokeE (Call_decodeClientDataJSON cdj) (decodeClientDataJSON H cdj))
             (\<lambda>clientDataJSON'.
           andThen (checkType (expectedType x) (cdType clientDataJSON'))
             (\<lambda>_. ret \<lparr>assertionResponse = ar, clientDataString = cdj,
                        clientDataJSON = clientDataJSON'\<rparr>))) h1) = Some (Inl e))"
    unfolding reachChallengeCheck_def by (rule andThen_InlD)
  moreover have "fst ((case p of (ar, cdj) \<Rightarrow>
           andThen (invokeE (Call_decodeClientDataJSON cdj) (decodeClientDataJSON H cdj))
             (\<lambda>clientDataJSON'.
           andThen (checkType (expectedType x) (cdType clientDataJSON'))
             (\<lambda>_. ret \<lparr>assertionResponse = ar, clientDataString = cdj,
                        clientDataJSON = clientDataJSON'\<rparr>))) h1) \<noteq> Some (Inl e)" for p h1
    using confined_error[OF no_credentialError_decoding, of "snd p" H x "fst p" h1 e] e
    by (cases p) auto
  ultimately show "fst (checkCredential (response x) h) = Some (Inl e)" by blast
qed

lemma verify_checkEncodings_Inl:
  assumes a: "(\<exists>L h1. reachEncodingChecks H x h = (Some (Inr L), h1)) \<and>
         fst (checkEncodings H (getProp (response x) ''response'') h) = Some (Inl e)"
  shows "fst (verifyAuthenticationResponse H x h) = Some (Inl e)"
proof -
  from a obtain L h1 where r: "reachEncodingChecks H x h = (Some (Inr L), h1)" by blast
  have ar: "assertionResponse L = getProp (response x) ''response''"
    using reachEncodingChecks_Inr[OF r] reachChallengeCheck_Inr by blast
  from a have "fst (checkEncodings H (getProp (response x) ''response'') h) = Some (Inl e)"
    by simp
  then have "fst (checkEncodings H (assertionResponse L) h1) = Some (Inl e)"
    unfolding ar fst_checkEncodings .
  then show "fst (verifyAuthenticationResponse H x h) = Some (Inl e)"
    unfolding verify_at_encodingChecks[OF r] fromEncodingChecks_def
    by (cases "checkEncodings H (assertionResponse L) h1") (simp add: andThen_def)
qed

lemma verify_encodingError:
  assumes e: "encodingError e"
  shows "fst (verifyAuthenticationResponse H x h) = Some (Inl e) \<longleftrightarrow>
         (\<exists>L h1. reachEncodingChecks H x h = (Some (Inr L), h1)) \<and>
         fst (checkEncodings H (getProp (response x) ''response'') h) = Some (Inl e)"
proof
  assume "(\<exists>L h1. reachEncodingChecks H x h = (Some (Inr L), h1)) \<and>
         fst (checkEncodings H (getProp (response x) ''response'') h) = Some (Inl e)"
  then show "fst (verifyAuthenticationResponse H x h) = Some (Inl e)"
    by (rule verify_checkEncodings_Inl)
next
  assume "fst (verifyAuthenticationResponse H x h) = Some (Inl e)"
  then have "fst (andThen (reachEncodingChecks H x) (fromEncodingChecks H x) h) = Some (Inl e)"
    by (simp add: verify_fromEncodingChecks)
  then have "fst (reachEncodingChecks H x h) = Some (Inl e) \<or>
      (\<exists>L h1. reachEncodingChecks H x h = (Some (Inr L), h1) \<and>
         fst (fromEncodingChecks H x L h1) = Some (Inl e))"
    by (rule andThen_InlD)
  moreover have "fst (reachEncodingChecks H x h) \<noteq> Some (Inl e)"
    using confined_error[OF no_encodingError_reachEncodingChecks, of H x h e] e by blast
  ultimately obtain L h1 where
    r: "reachEncodingChecks H x h = (Some (Inr L), h1)" and
    f: "fst (fromEncodingChecks H x L h1) = Some (Inl e)"
    by blast
  have ar: "assertionResponse L = getProp (response x) ''response''"
    using reachEncodingChecks_Inr[OF r] reachChallengeCheck_Inr by blast
  from f have "fst (checkEncodings H (assertionResponse L) h1) = Some (Inl e) \<or>
      (\<exists>u h2. checkEncodings H (assertionResponse L) h1 = (Some (Inr u), h2) \<and>
         fst (andThen (authenticatorDataChecks H x L) (fromFlagCheck H x) h2) = Some (Inl e))"
    unfolding fromEncodingChecks_def by (rule andThen_InlD)
  moreover have "fst (andThen (authenticatorDataChecks H x L) (fromFlagCheck H x) h2) \<noteq> Some (Inl e)"
    for h2
    using confined_error[OF no_encodingError_rest, of H x L h2 e] e by blast
  ultimately have "fst (checkEncodings H (assertionResponse L) h1) = Some (Inl e)" by blast
  then have "fst (checkEncodings H (getProp (response x) ''response'') h) = Some (Inl e)"
    unfolding ar fst_checkEncodings .
  with r show "(\<exists>L h1. reachEncodingChecks H x h = (Some (Inr L), h1)) \<and>
         fst (checkEncodings H (getProp (response x) ''response'') h) = Some (Inl e)"
    by blast
qed

lemma verify_Inr_encodings:
  assumes "fst (verifyAuthenticationResponse H x h) = Some (Inr res)"
  shows "(\<exists>L h1. reachEncodingChecks H x h = (Some (Inr L), h1)) \<and>
         fst (checkEncodings H (getProp (response x) ''response'') h) = Some (Inr ())"
proof -
  from assms have "fst (andThen (reachEncodingChecks H x) (fromEncodingChecks H x) h) = Some (Inr res)"
    by (simp add: verify_fromEncodingChecks)
  then have "\<exists>L h1. reachEncodingChecks H x h = (Some (Inr L), h1) \<and>
         fst (fromEncodingChecks H x L h1) = Some (Inr res)"
    by (rule andThen_InrD)
  then obtain L h1 where
    r: "reachEncodingChecks H x h = (Some (Inr L), h1)" and
    f: "fst (fromEncodingChecks H x L h1) = Some (Inr res)"
    by blast
  have ar: "assertionResponse L = getProp (response x) ''response''"
    using reachEncodingChecks_Inr[OF r] reachChallengeCheck_Inr by blast
  from f have "\<exists>u h2. checkEncodings H (assertionResponse L) h1 = (Some (Inr u), h2) \<and>
         fst (andThen (authenticatorDataChecks H x L) (fromFlagCheck H x) h2) = Some (Inr res)"
    unfolding fromEncodingChecks_def by (rule andThen_InrD)
  then have "fst (checkEncodings H (assertionResponse L) h1) = Some (Inr ())" by auto
  then have "fst (checkEncodings H (getProp (response x) ''response'') h) = Some (Inr ())"
    unfolding ar fst_checkEncodings .
  with r show ?thesis by blast
qed


lemma reachChallengeCheck_iff:
  "(\<exists>h1. reachChallengeCheck H x h = (Some (Inr L), h1)) \<longleftrightarrow>
     \<not> nullish (response x) \<and> truthy (getProp (response x) ''id'') \<and>
     strictEq (getProp (response x) ''id'') (getProp (response x) ''rawId'') \<and>
     getProp (response x) ''type'' = JString ''public-key'' \<and>
     assertionResponse L = getProp (response x) ''response'' \<and>
     getProp (assertionResponse L) ''clientDataJSON'' = JString (clientDataString L) \<and>
     decodeClientDataJSON H (clientDataString L) = Inr (clientDataJSON L) \<and>
     typeAccepted (expectedType x) (cdType (clientDataJSON L))"
proof
  assume "\<exists>h1. reachChallengeCheck H x h = (Some (Inr L), h1)"
  then show "\<not> nullish (response x) \<and> truthy (getProp (response x) ''id'') \<and>
     strictEq (getProp (response x) ''id'') (getProp (response x) ''rawId'') \<and>
     getProp (response x) ''type'' = JString ''public-key'' \<and>
     assertionResponse L = getProp (response x) ''response'' \<and>
     getProp (assertionResponse L) ''clientDataJSON'' = JString (clientDataString L) \<and>
     decodeClientDataJSON H (clientDataString L) = Inr (clientDataJSON L) \<and>
     typeAccepted (expectedType x) (cdType (clientDataJSON L))"
    using reachChallengeCheck_Inr by blast
next
  assume a: "\<not> nullish (response x) \<and> truthy (getProp (response x) ''id'') \<and>
     strictEq (getProp (response x) ''id'') (getProp (response x) ''rawId'') \<and>
     getProp (response x) ''type'' = JString ''public-key'' \<and>
     assertionResponse L = getProp (response x) ''response'' \<and>
     getProp (assertionResponse L) ''clientDataJSON'' = JString (clientDataString L) \<and>
     decodeClientDataJSON H (clientDataString L) = Inr (clientDataJSON L) \<and>
     typeAccepted (expectedType x) (cdType (clientDataJSON L))"
  then have n: "\<not> nullish (response x)"
    and c: "getProp (getProp (response x) ''response'') ''clientDataJSON'' =
      JString (clientDataString L)"
    and d: "decodeClientDataJSON H (clientDataString L) = Inr (clientDataJSON L)"
    and t: "typeAccepted (expectedType x) (cdType (clientDataJSON L))"
    and i: "truthy (getProp (response x) ''id'')"
      "strictEq (getProp (response x) ''id'') (getProp (response x) ''rawId'')"
      "getProp (response x) ''type'' = JString ''public-key''"
    and ar: "assertionResponse L = getProp (response x) ''response''"
    by auto
  have "L = \<lparr>assertionResponse = getProp (response x) ''response'',
     clientDataString = clientDataString L, clientDataJSON = clientDataJSON L\<rparr>"
    using ar by simp
  then show "\<exists>h1. reachChallengeCheck H x h = (Some (Inr L), h1)"
    by (simp add: reachChallengeCheck_def andThen_def checkCredential_apply[OF n] invokeE_def
        checkType_apply ret_def c d t i)
qed

lemma reachChallengeCheck_callerState:
  assumes "reachChallengeCheck H x h = (Some (Inr L), h0)"
  shows "callerState h0 = callerState h"
  using stateless_callerState[OF stateless_reachChallengeCheck, of H x h] assms by simp

lemma reachEncodingChecks_iff:
  "(\<exists>h1. reachEncodingChecks H x h = (Some (Inr L), h1)) \<longleftrightarrow>
     (\<exists>h0. reachChallengeCheck H x h = (Some (Inr L), h0)) \<and>
     challengeAccepted (expectedChallenge x) (callerState h) (cdChallenge (clientDataJSON L)) \<and>
     originAccepted (expectedOrigin x) (cdOrigin (clientDataJSON L))"
proof
  assume "\<exists>h1. reachEncodingChecks H x h = (Some (Inr L), h1)"
  then show "(\<exists>h0. reachChallengeCheck H x h = (Some (Inr L), h0)) \<and>
     challengeAccepted (expectedChallenge x) (callerState h) (cdChallenge (clientDataJSON L)) \<and>
     originAccepted (expectedOrigin x) (cdOrigin (clientDataJSON L))"
    unfolding reachEncodingChecks_def
    by (auto simp: Inr_iffs checkChallenge_apply checkOrigin_apply challengeAccepted_def
        elim!: andThen_InrE dest: reachChallengeCheck_callerState
        split: expectedChallenge.splits awaited.splits if_splits)
next
  assume a: "(\<exists>h0. reachChallengeCheck H x h = (Some (Inr L), h0)) \<and>
     challengeAccepted (expectedChallenge x) (callerState h) (cdChallenge (clientDataJSON L)) \<and>
     originAccepted (expectedOrigin x) (cdOrigin (clientDataJSON L))"
  then obtain h0 where r: "reachChallengeCheck H x h = (Some (Inr L), h0)" by blast
  have st: "callerState h0 = callerState h"
    using r by (rule reachChallengeCheck_callerState)
  from a r st show "\<exists>h1. reachEncodingChecks H x h = (Some (Inr L), h1)"
    by (auto simp: reachEncodingChecks_def andThen_def checkChallenge_apply checkOrigin_apply
        challengeAccepted_def ret_def split: expectedChallenge.splits)
qed


lemma reachCounterCheck_reachEncodingChecks:
  assumes "reachCounterCheck H x h = (Some (Inr L), h1)"
  shows "\<exists>L' h'. reachEncodingChecks H x h = (Some (Inr L'), h') \<and>
           clientDataJSON L' = clientDataJSON L"
  using assms unfolding reachCounterCheck_def reachFlagCheck_def
  by (auto elim!: andThen_InrE dest!: signedData_Inr authenticatorDataChecks_Inr)

lemma verifySignature_after_checks:
  assumes "list_ex isVerifySignature (newCalls (verifyAuthenticationResponse H x) h)"
  shows "\<exists>L h1. reachEncodingChecks H x h = (Some (Inr L), h1)"
proof -
  let ?m = "reachCounterCheck H x"
  have quiet: "list_all (\<lambda>c. \<not> isVerifySignature c) (newCalls ?m h)"
    by (rule confined_newCalls[OF no_verifySignature_reachCounterCheck])
  have "\<exists>L. fst (?m h) = Some (Inr L)"
  proof (rule ccontr)
    assume "\<not> ?thesis"
    then have "newCalls (verifyAuthenticationResponse H x) h = newCalls ?m h"
      unfolding verifyAuthenticationResponse_def by (intro newCalls_andThen_other) simp
    with quiet assms show False by (auto simp: list_all_iff list_ex_iff)
  qed
  then obtain L h1 where "?m h = (Some (Inr L), h1)"
    by (cases "?m h") auto
  from reachCounterCheck_reachEncodingChecks[OF this] show ?thesis by blast
qed

section \<open>Computations that follow one another\<close>

lemma follows_refl: "confined (\<lambda>c. True) (\<lambda>e. True) m \<Longrightarrow> follows P m m"
  by (simp add: follows_def)

lemma follows_throw: "follows P (throw e) (throw e)"
  by (rule follows_refl) (simp add: confined_throw)

lemma follows_ret: "follows P (ret a) (ret a)"
  by (rule follows_refl) (rule confined_ret)

lemma follows_throwIf: "follows P (throwIf b e) (throwIf b e)"
  by (rule follows_refl) (simp add: confined_throwIf)

lemma follows_readCredential: "follows P (readCredential f) (readCredential f)"
  by (rule follows_refl) (rule confined_readCredential)

lemma follows_await: "follows P (await p c) (await p c)"
  by (rule follows_refl) (simp add: confined_await)

lemma follows_invoke: "(P c \<Longrightarrow> v = w) \<Longrightarrow> follows P (invoke c v) (invoke c w)"
  by (simp add: follows_def confined_invoke) (simp add: newCalls_def invoke_def)

lemma follows_invokeE: "(P c \<Longrightarrow> v = w) \<Longrightarrow> follows P (invokeE c v) (invokeE c w)"
  by (simp add: follows_def confined_invokeE) (simp add: newCalls_def invokeE_def)

lemma follows_andThen:
  assumes m: "follows P m n" and f: "\<And>a. follows P (f a) (g a)"
  shows "follows P (andThen m f) (andThen n g)"
  unfolding follows_def
proof (intro conjI allI impI)
  have cm: "confined (\<lambda>c. True) (\<lambda>e. True) m" using m by (simp add: follows_def)
  have cf: "confined (\<lambda>c. True) (\<lambda>e. True) (f a)" for a using f[of a] by (simp add: follows_def)
  show "confined (\<lambda>c. True) (\<lambda>e. True) (andThen m f)"
    using cm cf by (rule confined_andThen)
  fix h
  assume ok: "list_all P (newCalls (andThen m f) h)"
  show "andThen n g h = andThen m f h"
  proof (cases "\<exists>a. fst (m h) = Some (Inr a)")
    case True
    then obtain a h1 where r: "m h = (Some (Inr a), h1)"
      by (cases "m h") auto
    have "newCalls (andThen m f) h = newCalls m h @ newCalls (f a) h1"
      using cm cf r by (rule newCalls_andThen_Inr)
    with ok have 1: "list_all P (newCalls m h)" and 2: "list_all P (newCalls (f a) h1)"
      by simp_all
    from m 1 have nm: "n h = m h" by (simp add: follows_def)
    from f[of a] 2 have gf: "g a h1 = f a h1" by (simp add: follows_def)
    show ?thesis by (simp add: andThen_def nm r gf)
  next
    case False
    then have "\<And>a. fst (m h) \<noteq> Some (Inr a)" by simp
    then have "newCalls (andThen m f) h = newCalls m h"
      by (rule newCalls_andThen_other)
    with ok m have nm: "n h = m h" by (simp add: follows_def)
    from False show ?thesis
      by (cases "m h") (auto simp: andThen_def nm split: option.splits sum.splits)
  qed
qed

lemmas follows_intros =
  follows_throw follows_ret follows_throwIf follows_readCredential follows_await
  follows_invoke follows_invokeE follows_andThen

lemma follows_checkCredential: "follows P (checkCredential r) (checkCredential r)"
  by (rule follows_refl) (intro confined_pieces; simp)

lemma follows_checkType: "follows P (checkType t u) (checkType t u)"
  by (rule follows_refl) (intro confined_pieces; simp)

lemma follows_checkChallenge: "follows P (checkChallenge t u) (checkChallenge t u)"
  by (rule follows_refl) (intro confined_pieces; simp)

lemma follows_checkOrigin: "follows P (checkOrigin t u) (checkOrigin t u)"
  by (rule follows_refl) (intro confined_pieces; simp)

lemma follows_checkTokenBinding: "follows P (checkTokenBinding u) (checkTokenBinding u)"
  by (rule follows_refl) (intro confined_pieces; simp)

lemma follows_checkFlags: "follows P (checkFlags x u) (checkFlags x u)"
  by (rule follows_refl) (intro confined_pieces; simp)

lemma follows_checkCounter: "follows P (checkCounter n) (checkCounter n)"
  by (rule follows_refl) (intro confined_pieces; simp)

lemma follows_checkEncodings:
  "follows (sameAnswer H H') (checkEncodings H u) (checkEncodings H' u)"
  unfolding checkEncodings_def Let_def
  by (intro follows_intros) simp_all

lemma follows_reachChallengeCheck:
  "follows (sameAnswer H H') (reachChallengeCheck H x) (reachChallengeCheck H' x)"
  unfolding reachChallengeCheck_def
  by (auto intro!: follows_intros follows_checkCredential follows_checkType)

lemma follows_authenticatorDataChecks:
  "follows (sameAnswer H H') (authenticatorDataChecks H x L) (authenticatorDataChecks H' x L)"
  unfolding authenticatorDataChecks_def Let_def
  by (intro follows_intros follows_checkTokenBinding) simp_all

lemma follows_signedData:
  "follows (sameAnswer H H') (signedData H L) (signedData H' L)"
  unfolding signedData_def Let_def
  by (intro follows_intros) simp_all

lemma follows_buildResult:
  "follows (sameAnswer H H') (buildResult H L) (buildResult H' L)"
  unfolding buildResult_def Let_def
  by (auto intro!: follows_intros)

lemma follows_verify:
  "follows (sameAnswer H H')
     (verifyAuthenticationResponse H x) (verifyAuthenticationResponse H' x)"
  unfolding verifyAuthenticationResponse_def reachCounterCheck_def reachFlagCheck_def
    reachEncodingChecks_def fromCounterCheck_def
  by (intro follows_intros follows_reachChallengeCheck follows_checkChallenge
      follows_checkOrigin follows_checkEncodings follows_authenticatorDataChecks
      follows_checkFlags follows_signedData follows_checkCounter follows_buildResult)

lemma same_answers_same_run:
  assumes "list_all (sameAnswer H H') (newCalls (verifyAuthenticationResponse H x) h)"
  shows "verifyAuthenticationResponse H' x h = verifyAuthenticationResponse H x h"
  using follows_verify[of H H' x] assms unfolding follows_def by blast

lemma literal_runs_agree:
  fixes h :: "'y heap" and k :: "'z heap"
  assumes l: "expectedChallenge x = Literal c"
    and s: "sameFields (credential k) (credential h)"
  shows "fst (verifyAuthenticationResponse H x k) = fst (verifyAuthenticationResponse H x h) \<and>
         newCalls (verifyAuthenticationResponse H x) k =
           newCalls (verifyAuthenticationResponse H x) h"
proof -
  let ?v = "verifyAuthenticationResponse H x"
  let ?k = "k\<lparr>callerState := callerState h\<rparr>"
  have sl: "stateless ?v" using l by (rule stateless_verify)
  have 1: "fst (?v ?k) = fst (?v k)" "newCalls ?v ?k = newCalls ?v k"
    by (rule stateless_fst[OF sl], rule stateless_newCalls[OF sl])
  have s': "sameFields (credential ?k) (credential h)" using s by simp
  have 2: "fst (?v ?k) = fst (?v h)"
    using s' by (rule same_outcome) simp
  have "sameKeyAndCounter (credential ?k) (credential h)"
    using s by (simp add: sameFields_def sameKeyAndCounter_def)
  then have 3: "newCalls ?v ?k = newCalls ?v h"
    by (rule related_newCalls[OF related_verify]) simp
  from 1 2 3 show ?thesis by simp
qed

section \<open>The check of line 80\<close>

text \<open>
  Line 80 tests \<^verbatim>\<open>!response\<close> after line 61 has destructured \<^verbatim>\<open>response\<close> and
  line 64 has found its \<^verbatim>\<open>id\<close> truthy. A value with a truthy property is itself
  truthy, so the error of line 81 is never thrown.
\<close>

lemma checkCredential_response_present:
  "fst (checkCredential r h) \<noteq> Some (Inl CredentialMissingResponse)"
  by (auto simp: checkCredential_def Let_def throw_def ret_def dest: truthy_getProp
      split: jsval.splits)

lemma no_CredentialMissingResponse_fromChallengeCheck:
  "confined (\<lambda>c. True) (\<lambda>e. e \<noteq> CredentialMissingResponse) (fromChallengeCheck H x L)"
  unfolding fromChallengeCheck_def fromOriginCheck_def fromEncodingChecks_def fromFlagCheck_def
    fromCounterCheck_def
  by (intro confined_intros confined_pieces) simp_all

lemma no_CredentialMissingResponse_decoding:
  "confined (\<lambda>c. True) (\<lambda>e. e \<noteq> CredentialMissingResponse)
     (andThen (invokeE (Call_decodeClientDataJSON cdj) (decodeClientDataJSON H cdj))
        (\<lambda>clientDataJSON'.
      andThen (checkType (expectedType x) (cdType clientDataJSON'))
        (\<lambda>_. ret \<lparr>assertionResponse = ar, clientDataString = cdj,
                   clientDataJSON = clientDataJSON'\<rparr>)))"
  by (intro confined_intros confined_pieces) simp_all

lemma missing_response_check_never_fires:
  "fst (verifyAuthenticationResponse H x h) \<noteq> Some (Inl CredentialMissingResponse)"
proof
  let ?e = CredentialMissingResponse
  assume "fst (verifyAuthenticationResponse H x h) = Some (Inl ?e)"
  then have "fst (andThen (reachChallengeCheck H x) (fromChallengeCheck H x) h) = Some (Inl ?e)"
    by (simp add: verify_fromChallengeCheck)
  then have "fst (reachChallengeCheck H x h) = Some (Inl ?e) \<or>
      (\<exists>L h1. reachChallengeCheck H x h = (Some (Inr L), h1) \<and>
         fst (fromChallengeCheck H x L h1) = Some (Inl ?e))"
    by (rule andThen_InlD)
  moreover have "fst (fromChallengeCheck H x L h1) \<noteq> Some (Inl ?e)" for L h1
    using confined_error[OF no_CredentialMissingResponse_fromChallengeCheck, of H x L h1 ?e]
    by blast
  ultimately have "fst (reachChallengeCheck H x h) = Some (Inl ?e)" by blast
  then have "fst (checkCredential (response x) h) = Some (Inl ?e) \<or>
      (\<exists>p h1. checkCredential (response x) h = (Some (Inr p), h1) \<and>
         fst ((case p of (ar, cdj) \<Rightarrow>
           andThen (invokeE (Call_decodeClientDataJSON cdj) (decodeClientDataJSON H cdj))
             (\<lambda>clientDataJSON'.
           andThen (checkType (expectedType x) (cdType clientDataJSON'))
             (\<lambda>_. ret \<lparr>assertionResponse = ar, clientDataString = cdj,
                        clientDataJSON = clientDataJSON'\<rparr>))) h1) = Some (Inl ?e))"
    unfolding reachChallengeCheck_def by (rule andThen_InlD)
  moreover have "fst ((case p of (ar, cdj) \<Rightarrow>
           andThen (invokeE (Call_decodeClientDataJSON cdj) (decodeClientDataJSON H cdj))
             (\<lambda>clientDataJSON'.
           andThen (checkType (expectedType x) (cdType clientDataJSON'))
             (\<lambda>_. ret \<lparr>assertionResponse = ar, clientDataString = cdj,
                        clientDataJSON = clientDataJSON'\<rparr>))) h1) \<noteq> Some (Inl ?e)" for p h1
    using confined_error[OF no_CredentialMissingResponse_decoding, of "snd p" H x "fst p" h1 ?e]
    by (cases p) auto
  ultimately have "fst (checkCredential (response x) h) = Some (Inl ?e)" by blast
  then show False by (simp add: checkCredential_response_present)
qed

section \<open>What is verified\<close>

text \<open>
  C1. Whenever a call invokes the signature verifier, it invokes it once, on the decoded
  bytes of the response's \<open>signature\<close>, over the decoded bytes of the response's
  \<open>authenticatorData\<close> followed by the hash of the decoded bytes of its
  \<open>clientDataJSON\<close>, with the public key stored in the caller's credential; and the
  \<open>verified\<close> field of the record returned is the verifier's answer (the call throws
  when the verifier throws).
\<close>

theorem signature_over_authData_and_hash:
  fixes H :: helpers and x :: options and h :: "'z heap"
  defines "out \<equiv> fst (verifyAuthenticationResponse H x h)"
  defines "made \<equiv> newCalls (verifyAuthenticationResponse H x) h"
  defines "assertion \<equiv> getProp (response x) ''response''"
  assumes called: "Call_verifySignature sg dat key \<in> set made"
  shows
    "(\<exists>cdj authData clientDataBytes.
        getProp assertion ''clientDataJSON'' = JString cdj \<and>
        toBuffer H (JString cdj) = Inr clientDataBytes \<and>
        toBuffer H (getProp assertion ''authenticatorData'') = Inr authData \<and>
        dat = authData @ toHash H clientDataBytes) \<and>
     toBuffer H (getProp assertion ''signature'') = Inr sg \<and>
     key = credPublicKey (credential h) \<and>
     filter isVerifySignature made = [Call_verifySignature sg dat key] \<and>
     (case verifySignature H sg dat key of
        Inl m \<Rightarrow> out = Some (Inl (HelperThrew m))
      | Inr b \<Rightarrow> \<exists>r. out = Some (Inr r) \<and> verified r = b)"
proof -
  let ?m = "reachCounterCheck H x"
  have quiet: "list_all (\<lambda>c. \<not> isVerifySignature c) (newCalls ?m h)"
    by (rule confined_newCalls[OF no_verifySignature_reachCounterCheck])
  have v: "verifyAuthenticationResponse H x = andThen ?m (fromCounterCheck H)"
    by (simp add: verifyAuthenticationResponse_def)
  have "\<exists>L. fst (?m h) = Some (Inr L)"
  proof (rule ccontr)
    assume "\<not> ?thesis"
    then have "made = newCalls ?m h"
      unfolding made_def v by (intro newCalls_andThen_other) simp
    with quiet called show False by (auto simp: list_all_iff)
  qed
  then obtain L h1 where r: "?m h = (Some (Inr L), h1)"
    by (cases "?m h") auto
  have c: "credential h1 = credential h"
    using confined_credential[OF grows_reachCounterCheck, of H x h] r by simp
  have made: "made = newCalls ?m h @ newCalls (fromCounterCheck H L) h1"
    unfolding made_def v
    by (rule newCalls_andThen_Inr[OF no_verifySignature_reachCounterCheck grows_fromCounterCheck r])
  with called quiet have
    tail: "Call_verifySignature sg dat key \<in> set (newCalls (fromCounterCheck H L) h1)"
    by (auto simp: list_all_iff)
  have o: "out = fst (fromCounterCheck H L h1)"
    unfolding out_def by (simp add: verify_at_counterCheck[OF r])
  from tail have ok: "\<not> ((counter (parsedAuthData L) > 0 \<or> credCounter (credential h1) > 0) \<and>
         counter (parsedAuthData L) \<le> credCounter (credential h1))"
    and args: "sg = signature L" "dat = signatureBase L" "key = credPublicKey (credential h)"
    and pbf: "\<exists>p. parseBackupFlags H (flags (parsedAuthData L)) = Inr p"
    unfolding newCalls_fromCounterCheck c[symmetric]
    by (auto split: if_splits sum.splits)
  from pbf obtain p where p: "parseBackupFlags H (flags (parsedAuthData L)) = Inr p" by blast
  have 1: "filter isVerifySignature made = [Call_verifySignature sg dat key]"
    unfolding made using ok p args c
    by (simp add: filter_none[OF quiet] newCalls_fromCounterCheck)
  have 2: "case verifySignature H sg dat key of
        Inl m \<Rightarrow> out = Some (Inl (HelperThrew m))
      | Inr b \<Rightarrow> \<exists>r. out = Some (Inr r) \<and> verified r = b"
    unfolding o using ok p args c
    by (cases p) (auto simp: fromCounterCheck_apply buildResult_apply split: sum.splits)
  from reachCounterCheck_Inr[OF r] args 1 2 show ?thesis
    unfolding assertion_def by auto
qed



theorem signature_over_authData_and_hash_witness:
  "Call_verifySignature [7, 11, 5, 5, 1] [11, 5, 5, 1] [7] \<in>
     set (newCalls (verifyAuthenticationResponse demo_helpers
            (demo_options (demo_response ''A'' ''LFF'' ''HLFFB'' []))) (demo_heap ''QQ'' 4)) \<and>
   filter isVerifySignature
     (newCalls (verifyAuthenticationResponse demo_helpers
            (demo_options (demo_response ''A'' ''LFF'' ''HLFFB'' []))) (demo_heap ''QQ'' 4)) =
     [Call_verifySignature [7, 11, 5, 5, 1] [11, 5, 5, 1] [7]] \<and>
   (\<exists>r. fst (verifyAuthenticationResponse demo_helpers
            (demo_options (demo_response ''A'' ''LFF'' ''HLFFB'' [])) (demo_heap ''QQ'' 4)) =
        Some (Inr r) \<and> verified r)"
proof -
  let ?x = "demo_options (demo_response ''A'' ''LFF'' ''HLFFB'' [])"
  let ?h = "demo_heap ''QQ'' 4"
  have c: "Call_verifySignature [7, 11, 5, 5, 1] [11, 5, 5, 1] [7] \<in>
     set (newCalls (verifyAuthenticationResponse demo_helpers ?x) ?h)"
    by (simp add: newCalls_def demo_eval)
  have v: "verifySignature demo_helpers [7, 11, 5, 5, 1] [11, 5, 5, 1] [7] = Inr True"
    by (simp add: demo_helpers_def demo_verifySignature_def)
  from signature_over_authData_and_hash[OF c] c v show ?thesis
    by simp
qed

section \<open>The counter policy\<close>




section \<open>An invalid signature\<close>

text \<open>
  C3. A call that gets as far as the counter check, passes it, and whose flags the
  backup-flag helper accepts, returns a record when the signature verifier answers
  \<open>false\<close>: \<open>verified\<close> is false and every field of \<open>authenticationInfo\<close> is filled from
  the parsed authenticator data, the client data, the matched RP ID and the caller's
  credential. Put differently: whenever a call returns a record, the same call with a
  verifier that rejects every signature returns the same record with \<open>verified\<close> false.
\<close>

theorem invalid_signature_is_a_verdict:
  fixes H :: helpers and x :: options and h :: "'z heap"
  shows
    "(reachCounterCheck H x h = (Some (Inr L), h1) \<and>
      \<not> ((counter (parsedAuthData L) > 0 \<or> credCounter (credential h) > 0) \<and>
         counter (parsedAuthData L) \<le> credCounter (credential h)) \<and>
      parseBackupFlags H (flags (parsedAuthData L)) = Inr (dt, bu) \<and>
      verifySignature H (signature L) (signatureBase L) (credPublicKey (credential h)) = Inr False \<longrightarrow>
        fst (verifyAuthenticationResponse H x h) =
          Some (Inr \<lparr>verified = False,
            authenticationInfo =
              \<lparr>newCounter = counter (parsedAuthData L),
               credentialID = credID (credential h),
               userVerified = uv (flags (parsedAuthData L)),
               credentialDeviceType = dt,
               credentialBackedUp = bu,
               authenticatorExtensionResults = extensionsData (parsedAuthData L),
               origin = cdOrigin (clientDataJSON L),
               rpID = matchedRPID L\<rparr>\<rparr>)) \<and>
     (fst (verifyAuthenticationResponse H x h) = Some (Inr r) \<and> (\<forall>sg dat key. V sg dat key = Inr False) \<longrightarrow>
        fst (verifyAuthenticationResponse (H\<lparr>verifySignature := V\<rparr>) x h) =
          Some (Inr (r\<lparr>verified := False\<rparr>)))"
proof (intro conjI impI)
  assume a: "reachCounterCheck H x h = (Some (Inr L), h1) \<and>
      \<not> ((counter (parsedAuthData L) > 0 \<or> credCounter (credential h) > 0) \<and>
         counter (parsedAuthData L) \<le> credCounter (credential h)) \<and>
      parseBackupFlags H (flags (parsedAuthData L)) = Inr (dt, bu) \<and>
      verifySignature H (signature L) (signatureBase L) (credPublicKey (credential h)) = Inr False"
  then have r: "reachCounterCheck H x h = (Some (Inr L), h1)" by simp
  have c: "credential h1 = credential h"
    using confined_credential[OF grows_reachCounterCheck, of H x h] r by simp
  show "fst (verifyAuthenticationResponse H x h) =
          Some (Inr \<lparr>verified = False,
            authenticationInfo =
              \<lparr>newCounter = counter (parsedAuthData L),
               credentialID = credID (credential h),
               userVerified = uv (flags (parsedAuthData L)),
               credentialDeviceType = dt,
               credentialBackedUp = bu,
               authenticatorExtensionResults = extensionsData (parsedAuthData L),
               origin = cdOrigin (clientDataJSON L),
               rpID = matchedRPID L\<rparr>\<rparr>)"
    using a unfolding verify_at_counterCheck[OF r]
    by (simp add: fromCounterCheck_apply buildResult_apply c)
next
  assume a: "fst (verifyAuthenticationResponse H x h) = Some (Inr r) \<and>
    (\<forall>sg dat key. V sg dat key = Inr False)"
  then have "fst (andThen (reachCounterCheck H x) (fromCounterCheck H) h) = Some (Inr r)"
    unfolding verifyAuthenticationResponse_def by simp
  then have "\<exists>L h1. reachCounterCheck H x h = (Some (Inr L), h1) \<and>
      fst (fromCounterCheck H L h1) = Some (Inr r)"
    by (rule andThen_InrD)
  then obtain L h1 where
    r: "reachCounterCheck H x h = (Some (Inr L), h1)" and
    f: "fst (fromCounterCheck H L h1) = Some (Inr r)"
    by blast
  have r': "reachCounterCheck (H\<lparr>verifySignature := V\<rparr>) x h = (Some (Inr L), h1)"
    using r by (simp add: reachCounterCheck_verifySignature)
  show "fst (verifyAuthenticationResponse (H\<lparr>verifySignature := V\<rparr>) x h) =
          Some (Inr (r\<lparr>verified := False\<rparr>))"
    unfolding verify_at_counterCheck[OF r'] using f a
    by (auto simp: fromCounterCheck_apply buildResult_apply split: if_splits sum.splits prod.splits)
qed

theorem invalid_signature_is_a_verdict_witness:
  "fst (verifyAuthenticationResponse demo_helpers
          (demo_options (demo_response ''A'' ''LFF'' ''HLFFC'' [])) (demo_heap ''QQ'' 4)) =
     Some (Inr \<lparr>verified = False,
       authenticationInfo =
         \<lparr>newCounter = 5, credentialID = ''QQ'', userVerified = True,
          credentialDeviceType = SingleDevice, credentialBackedUp = False,
          authenticatorExtensionResults = JUndefined, origin = ''https://example.com'',
          rpID = ''example.com''\<rparr>\<rparr>)"
proof -
  let ?x = "demo_options (demo_response ''A'' ''LFF'' ''HLFFC'' [])"
  let ?h = "demo_heap ''QQ'' 4"
  have "\<exists>L h1. reachCounterCheck demo_helpers ?x ?h = (Some (Inr L), h1) \<and>
      parsedAuthData L = \<lparr>rpIdHash = [11],
         flags = \<lparr>up = True, uv = True, be = False, bs = False, at = False, ed = False\<rparr>,
         counter = 5, extensionsData = JUndefined\<rparr> \<and>
      signature L = [7, 11, 5, 5, 2] \<and> signatureBase L = [11, 5, 5, 1] \<and>
      cdOrigin (clientDataJSON L) = ''https://example.com'' \<and> matchedRPID L = ''example.com''"
    by (simp add: demo_eval)
  then obtain L h1 where
    r: "reachCounterCheck demo_helpers ?x ?h = (Some (Inr L), h1)" and
    f: "parsedAuthData L = \<lparr>rpIdHash = [11],
         flags = \<lparr>up = True, uv = True, be = False, bs = False, at = False, ed = False\<rparr>,
         counter = 5, extensionsData = JUndefined\<rparr>"
      "signature L = [7, 11, 5, 5, 2]" "signatureBase L = [11, 5, 5, 1]"
      "cdOrigin (clientDataJSON L) = ''https://example.com''" "matchedRPID L = ''example.com''"
    by blast
  show ?thesis
    using invalid_signature_is_a_verdict[of demo_helpers ?x ?h L h1 SingleDevice False] r f
    by (simp add: demo_helpers_def demo_parseBackupFlags_def demo_verifySignature_def demo_heap_def)
qed

section \<open>The flag policy\<close>

text \<open>
  C4. The flag policy has two modes, selected by whether \<^verbatim>\<open>advancedFIDOConfig\<close> is
  supplied. For a call that gets as far as the flag checks: without
  \<^verbatim>\<open>advancedFIDOConfig\<close> it fails for user presence exactly when \<open>up\<close> is false, and
  for user verification exactly when \<open>up\<close> is true, \<^verbatim>\<open>requireUserVerification\<close> is not
  \<open>false\<close> (it defaults to true) and \<open>uv\<close> is false; with \<^verbatim>\<open>advancedFIDOConfig\<close> it
  fails for user verification exactly when the requirement is \<open>required\<close> and \<open>uv\<close> is
  false, and never for user presence. With \<^verbatim>\<open>advancedFIDOConfig\<close> and any other
  requirement, \<open>discouraged\<close> among them, no call fails for its flags. The two flag
  errors are thrown nowhere else.
\<close>

theorem flag_policy_modes:
  fixes H :: helpers and x :: options and h :: "'z heap"
  defines "out \<equiv> fst (verifyAuthenticationResponse H x h)"
  shows
    "(reachFlagCheck H x h = (Some (Inr L), h1) \<longrightarrow>
        (out = Some (Inl UserNotPresent) \<longleftrightarrow>
           advancedFIDOConfig x = None \<and> \<not> up (flags (parsedAuthData L))) \<and>
        (out = Some (Inl UserVerificationRequired) \<longleftrightarrow>
           (case advancedFIDOConfig x of
              None \<Rightarrow> up (flags (parsedAuthData L)) \<and> requireUserVerification x \<noteq> Some False \<and>
                      \<not> uv (flags (parsedAuthData L))
            | Some a \<Rightarrow> userVerification a = Some Required \<and> \<not> uv (flags (parsedAuthData L))))) \<and>
     (advancedFIDOConfig x = Some a \<and> userVerification a \<noteq> Some Required \<longrightarrow>
        out \<noteq> Some (Inl UserNotPresent) \<and> out \<noteq> Some (Inl UserVerificationRequired)) \<and>
     (out = Some (Inl UserNotPresent) \<or> out = Some (Inl UserVerificationRequired) \<longrightarrow>
        (\<exists>L h1. reachFlagCheck H x h = (Some (Inr L), h1)))"
proof -
  let ?E = "\<lambda>e. e \<noteq> UserNotPresent \<and> e \<noteq> UserVerificationRequired"
  have reached: "\<exists>L h1. reachFlagCheck H x h = (Some (Inr L), h1)"
    if "out = Some (Inl e)" and "\<not> ?E e" for e
  proof -
    from that(1) have "fst (andThen (reachFlagCheck H x) (fromFlagCheck H x) h) = Some (Inl e)"
      unfolding out_def verify_fromFlagCheck .
    then have "fst (reachFlagCheck H x h) = Some (Inl e) \<or>
        (\<exists>L h1. reachFlagCheck H x h = (Some (Inr L), h1) \<and> fst (fromFlagCheck H x L h1) = Some (Inl e))"
      by (rule andThen_InlD)
    moreover have "fst (reachFlagCheck H x h) \<noteq> Some (Inl e)"
      using confined_error[OF no_flag_error_reachFlagCheck, of H x h e] that(2) by blast
    ultimately show ?thesis by blast
  qed
  have at: "(out = Some (Inl UserNotPresent) \<longleftrightarrow>
           advancedFIDOConfig x = None \<and> \<not> up (flags (parsedAuthData L))) \<and>
        (out = Some (Inl UserVerificationRequired) \<longleftrightarrow>
           (case advancedFIDOConfig x of
              None \<Rightarrow> up (flags (parsedAuthData L)) \<and> requireUserVerification x \<noteq> Some False \<and>
                      \<not> uv (flags (parsedAuthData L))
            | Some a \<Rightarrow> userVerification a = Some Required \<and> \<not> uv (flags (parsedAuthData L))))"
    if r: "reachFlagCheck H x h = (Some (Inr L), h1)" for L h1
  proof -
    let ?rest = "andThen (signedData H L) (fromCounterCheck H)"
    have o: "out = fst (andThen (checkFlags x (flags (parsedAuthData L))) (\<lambda>_. ?rest) h1)"
      unfolding out_def verify_at_flagCheck[OF r] fromFlagCheck_def ..
    have rest: "fst (?rest h1) \<noteq> Some (Inl UserNotPresent)"
      "fst (?rest h1) \<noteq> Some (Inl UserVerificationRequired)"
      using confined_error[OF no_flag_error_rest, of H L h1] by blast+
    show ?thesis
      unfolding o using rest
      by (auto simp: andThen_def checkFlags_apply split: option.splits)
  qed
  have other: "out \<noteq> Some (Inl UserNotPresent) \<and> out \<noteq> Some (Inl UserVerificationRequired)"
    if a: "advancedFIDOConfig x = Some a \<and> userVerification a \<noteq> Some Required"
  proof (rule ccontr)
    assume "\<not> ?thesis"
    then obtain e where e: "out = Some (Inl e)" "\<not> ?E e" by auto
    from reached[OF e] obtain L h1 where "reachFlagCheck H x h = (Some (Inr L), h1)" by blast
    from at[OF this] e a show False by auto
  qed
  from at other reached show ?thesis by blast
qed

theorem flag_policy_modes_witness:
  "fst (verifyAuthenticationResponse demo_helpers
          (demo_options (demo_response ''A'' ''LBF'' ''HLBFB'' [])) (demo_heap ''QQ'' 4)) =
     Some (Inl UserVerificationRequired) \<and>
   (\<exists>L h1. reachFlagCheck demo_helpers
          (demo_options (demo_response ''A'' ''LBF'' ''HLBFB'' [])) (demo_heap ''QQ'' 4) =
        (Some (Inr L), h1) \<and> up (flags (parsedAuthData L)) \<and> \<not> uv (flags (parsedAuthData L))) \<and>
   (\<exists>r. fst (verifyAuthenticationResponse demo_helpers
          ((demo_options (demo_response ''A'' ''LBF'' ''HLBFB'' []))
             \<lparr>advancedFIDOConfig := Some \<lparr>userVerification = Some Discouraged\<rparr>\<rparr>)
          (demo_heap ''QQ'' 4)) = Some (Inr r) \<and> \<not> userVerified (authenticationInfo r))"
proof -
  let ?x = "demo_options (demo_response ''A'' ''LBF'' ''HLBFB'' [])"
  let ?h = "demo_heap ''QQ'' 4"
  have "\<exists>L h1. reachFlagCheck demo_helpers ?x ?h = (Some (Inr L), h1) \<and>
      up (flags (parsedAuthData L)) \<and> \<not> uv (flags (parsedAuthData L))"
    by (simp add: demo_eval)
  then obtain L h1 where
    r: "reachFlagCheck demo_helpers ?x ?h = (Some (Inr L), h1)" and
    f: "up (flags (parsedAuthData L))" "\<not> uv (flags (parsedAuthData L))"
    by blast
  have o: "advancedFIDOConfig ?x = None" "requireUserVerification ?x \<noteq> Some False"
    by (simp_all add: demo_options_def)
  have 1: "fst (verifyAuthenticationResponse demo_helpers ?x ?h) = Some (Inl UserVerificationRequired)"
    using flag_policy_modes[of demo_helpers ?x ?h L h1] r f o by simp
  have 2: "\<exists>r. fst (verifyAuthenticationResponse demo_helpers
          (?x\<lparr>advancedFIDOConfig := Some \<lparr>userVerification = Some Discouraged\<rparr>\<rparr>) ?h) = Some (Inr r) \<and>
        \<not> userVerified (authenticationInfo r)"
    by (simp add: demo_eval)
  from 1 2 r f show ?thesis by blast
qed

section \<open>Rejections come before the signature\<close>

text \<open>
  C5. Take a call that gets as far as the challenge check, so that the client data is
  decoded. When the challenge is rejected (it differs from the expected string, or the
  caller's verifier, in the state the caller is in, answers \<open>false\<close>) the call throws
  the challenge error; when the challenge is accepted and the origin is not the expected
  one, or not among the expected ones, it throws the origin error; and whenever the
  origin is not expected the call returns no record. In each of these cases the signature verifier is never invoked.
  Conversely, in any call whatever, the signature verifier is invoked only after the
  client data has been decoded and its challenge and origin have been accepted.
\<close>

theorem policy_rejections_precede_signature:
  fixes H :: helpers and x :: options and h :: "'z heap"
  defines "out \<equiv> fst (verifyAuthenticationResponse H x h)"
  defines "made \<equiv> newCalls (verifyAuthenticationResponse H x) h"
  shows
    "(reachChallengeCheck H x h = (Some (Inr L), h1) \<longrightarrow>
       (challengeRejected (expectedChallenge x) (callerState h) (cdChallenge (clientDataJSON L)) \<longrightarrow>
          out = Some (Inl (challengeError (expectedChallenge x) (cdChallenge (clientDataJSON L)))) \<and>
          \<not> list_ex isVerifySignature made) \<and>
       (challengeAccepted (expectedChallenge x) (callerState h) (cdChallenge (clientDataJSON L)) \<and>
        \<not> originAccepted (expectedOrigin x) (cdOrigin (clientDataJSON L)) \<longrightarrow>
          out = Some (Inl (originError (expectedOrigin x) (cdOrigin (clientDataJSON L)))) \<and>
          \<not> list_ex isVerifySignature made) \<and>
       (\<not> originAccepted (expectedOrigin x) (cdOrigin (clientDataJSON L)) \<longrightarrow>
          (\<forall>r. out \<noteq> Some (Inr r)) \<and> \<not> list_ex isVerifySignature made)) \<and>
     (list_ex isVerifySignature made \<longrightarrow>
        (\<exists>cdj cd. getProp (getProp (response x) ''response'') ''clientDataJSON'' = JString cdj \<and>
           decodeClientDataJSON H cdj = Inr cd \<and>
           challengeAccepted (expectedChallenge x) (callerState h) (cdChallenge cd) \<and>
           originAccepted (expectedOrigin x) (cdOrigin cd)))"
proof -
  have after: "\<exists>cdj cd. getProp (getProp (response x) ''response'') ''clientDataJSON'' = JString cdj \<and>
           decodeClientDataJSON H cdj = Inr cd \<and>
           challengeAccepted (expectedChallenge x) (callerState h) (cdChallenge cd) \<and>
           originAccepted (expectedOrigin x) (cdOrigin cd)"
    if called: "list_ex isVerifySignature made"
  proof -
    from verifySignature_after_checks[OF called[unfolded made_def]] obtain L' h' where
      "reachEncodingChecks H x h = (Some (Inr L'), h')" by blast
    then have "\<exists>h'. reachEncodingChecks H x h = (Some (Inr L'), h')" by blast
    then show ?thesis
      unfolding reachEncodingChecks_iff reachChallengeCheck_iff by auto
  qed
  have before: "(challengeRejected (expectedChallenge x) (callerState h) (cdChallenge (clientDataJSON L)) \<longrightarrow>
          out = Some (Inl (challengeError (expectedChallenge x) (cdChallenge (clientDataJSON L)))) \<and>
          \<not> list_ex isVerifySignature made) \<and>
       (challengeAccepted (expectedChallenge x) (callerState h) (cdChallenge (clientDataJSON L)) \<and>
        \<not> originAccepted (expectedOrigin x) (cdOrigin (clientDataJSON L)) \<longrightarrow>
          out = Some (Inl (originError (expectedOrigin x) (cdOrigin (clientDataJSON L)))) \<and>
          \<not> list_ex isVerifySignature made) \<and>
       (\<not> originAccepted (expectedOrigin x) (cdOrigin (clientDataJSON L)) \<longrightarrow>
          (\<forall>r. out \<noteq> Some (Inr r)) \<and> \<not> list_ex isVerifySignature made)"
    if reach: "reachChallengeCheck H x h = (Some (Inr L), h1)"
  proof -
  let ?c = "cdChallenge (clientDataJSON L)" and ?g = "cdOrigin (clientDataJSON L)"
  let ?rest = "\<lambda>_::unit. andThen (checkOrigin (expectedOrigin x) ?g) (\<lambda>_. fromEncodingChecks H x L)"
  let ?f = "fromChallengeCheck H x L"
  have quiet: "list_all (\<lambda>c. \<not> isVerifySignature c) (newCalls (reachChallengeCheck H x) h)"
    by (rule confined_newCalls[OF no_verifySignature_reachChallengeCheck])
  have made: "made = newCalls (reachChallengeCheck H x) h @ newCalls ?f h1"
    unfolding made_def verify_fromChallengeCheck
    by (rule newCalls_andThen_Inr[OF no_verifySignature_reachChallengeCheck
          grows_fromChallengeCheck reach])
  have o: "out = fst (?f h1)"
    unfolding out_def by (simp add: verify_at_challengeCheck[OF reach])
  have f: "?f h1 = andThen (checkChallenge (expectedChallenge x) ?c) ?rest h1"
    by (simp add: fromChallengeCheck_def fromOriginCheck_def[abs_def])
  have st: "callerState h1 = callerState h"
    using reach by (rule reachChallengeCheck_callerState)
  have same: "h1\<lparr>callerState := callerState h\<rparr> = h1"
    using st by simp
  have rejected: "?f h1 = (Some (Inl (challengeError (expectedChallenge x) ?c)),
      h1\<lparr>calls := calls h1 @ (case expectedChallenge x of Literal l \<Rightarrow> []
          | Verifier p \<Rightarrow> [Call_expectedChallenge ?c]),
        callerState := (case expectedChallenge x of Literal l \<Rightarrow> callerState h
          | Verifier p \<Rightarrow> snd (p ?c (callerState h)))\<rparr>)"
    if "challengeRejected (expectedChallenge x) (callerState h) ?c"
    using that unfolding f
    by (auto simp: andThen_def checkChallenge_apply challengeRejected_def challengeError_def st same
        split: expectedChallenge.splits)
  have accepted: "?f h1 = (Some (Inl (originError (expectedOrigin x) ?g)),
      h1\<lparr>calls := calls h1 @ (case expectedChallenge x of Literal l \<Rightarrow> []
          | Verifier p \<Rightarrow> [Call_expectedChallenge ?c]),
        callerState := (case expectedChallenge x of Literal l \<Rightarrow> callerState h
          | Verifier p \<Rightarrow> snd (p ?c (callerState h)))\<rparr>)"
    if "challengeAccepted (expectedChallenge x) (callerState h) ?c" "\<not> originAccepted (expectedOrigin x) ?g"
    using that unfolding f
    by (auto simp: andThen_def checkChallenge_apply checkOrigin_apply challengeAccepted_def st same
        split: expectedChallenge.splits)
  have stopped: "(\<forall>r. fst (?f h1) \<noteq> Some (Inr r)) \<and>
      snd (?f h1) = h1\<lparr>calls := calls h1 @ (case expectedChallenge x of Literal l \<Rightarrow> []
          | Verifier p \<Rightarrow> [Call_expectedChallenge ?c]),
        callerState := (case expectedChallenge x of Literal l \<Rightarrow> callerState h
          | Verifier p \<Rightarrow> snd (p ?c (callerState h)))\<rparr>"
    if "\<not> originAccepted (expectedOrigin x) ?g"
    using that unfolding f
    by (auto simp: andThen_def checkChallenge_apply checkOrigin_apply st same
        split: expectedChallenge.splits awaited.splits)
  have none: "\<not> list_ex isVerifySignature made"
    if "snd (?f h1) = h1\<lparr>calls := calls h1 @ (case expectedChallenge x of Literal l \<Rightarrow> []
          | Verifier p \<Rightarrow> [Call_expectedChallenge ?c]),
        callerState := (case expectedChallenge x of Literal l \<Rightarrow> callerState h
          | Verifier p \<Rightarrow> snd (p ?c (callerState h)))\<rparr>"
  proof -
    have "newCalls ?f h1 = (case expectedChallenge x of Literal l \<Rightarrow> []
          | Verifier p \<Rightarrow> [Call_expectedChallenge ?c])"
      using that by (simp add: newCalls_def)
    with quiet show ?thesis
      unfolding made by (auto simp: list_all_iff list_ex_iff split: expectedChallenge.splits)
  qed
  show ?thesis
    unfolding o using rejected accepted stopped none by (simp add: o)
  qed
  from after before show ?thesis by blast
qed

theorem policy_rejections_precede_signature_witness:
  "fst (verifyAuthenticationResponse demo_helpers
          (demo_options (demo_response ''B'' ''LFF'' ''HLFFB'' [])) (demo_heap ''QQ'' 4)) =
     Some (Inl (UnexpectedOrigin ''https://evil.example'' ''https://example.com'')) \<and>
   \<not> list_ex isVerifySignature
       (newCalls (verifyAuthenticationResponse demo_helpers
          (demo_options (demo_response ''B'' ''LFF'' ''HLFFB'' []))) (demo_heap ''QQ'' 4)) \<and>
   fst (verifyAuthenticationResponse demo_helpers
          ((demo_options (demo_response ''A'' ''LFF'' ''HLFFB'' []))
             \<lparr>expectedChallenge := Verifier (\<lambda>c s. (Resolves False, s))\<rparr>) (demo_heap ''QQ'' 4)) =
     Some (Inl (ChallengeVerifierReturnedFalse ''abc123'')) \<and>
   \<not> list_ex isVerifySignature
       (newCalls (verifyAuthenticationResponse demo_helpers
          ((demo_options (demo_response ''A'' ''LFF'' ''HLFFB'' []))
             \<lparr>expectedChallenge := Verifier (\<lambda>c s. (Resolves False, s))\<rparr>)) (demo_heap ''QQ'' 4))"
proof -
  let ?x = "demo_options (demo_response ''B'' ''LFF'' ''HLFFB'' [])"
  let ?y = "(demo_options (demo_response ''A'' ''LFF'' ''HLFFB'' []))
             \<lparr>expectedChallenge := Verifier (\<lambda>c s. (Resolves False, s))\<rparr>"
  let ?h = "demo_heap ''QQ'' 4"
  have "\<exists>L h1. reachChallengeCheck demo_helpers ?x ?h = (Some (Inr L), h1) \<and>
      cdChallenge (clientDataJSON L) = ''abc123'' \<and>
      cdOrigin (clientDataJSON L) = ''https://evil.example''"
    by (simp add: demo_eval)
  then obtain L h1 where
    r: "reachChallengeCheck demo_helpers ?x ?h = (Some (Inr L), h1)" and
    f: "cdChallenge (clientDataJSON L) = ''abc123''"
       "cdOrigin (clientDataJSON L) = ''https://evil.example''"
    by blast
  have "\<exists>L h1. reachChallengeCheck demo_helpers ?y ?h = (Some (Inr L), h1) \<and>
      cdChallenge (clientDataJSON L) = ''abc123''"
    by (simp add: demo_eval)
  then obtain L' h1' where
    r': "reachChallengeCheck demo_helpers ?y ?h = (Some (Inr L'), h1')" and
    f': "cdChallenge (clientDataJSON L') = ''abc123''"
    by blast
  from policy_rejections_precede_signature[of demo_helpers ?x ?h L h1] r f
       policy_rejections_precede_signature[of demo_helpers ?y ?h L' h1'] r' f'
  show ?thesis
    by (simp add: demo_options_def challengeAccepted_def challengeRejected_def challengeError_def
        originAccepted_def originError_def)
qed

section \<open>Structural validation\<close>

text \<open>
  C6, as stated. The claim is that the encoding error is thrown if and only if the
  authenticator data or the signature is not valid base64url, or \<open>userHandle\<close> is
  present but not a string. A \<open>userHandle\<close> that is the number 0 is present and not a
  string, and the call returns its record: the check of lines 149 to 154 lets every
  falsy \<open>userHandle\<close> pass.
\<close>

theorem userHandle_counterexample:
  "getProp (getProp (response (demo_options
       (demo_response ''A'' ''LFF'' ''HLFFB'' [(''userHandle'', JNumber 0)]))) ''response'')
     ''userHandle'' = JNumber 0 \<and>
   \<not> typeofString (JNumber 0) \<and>
   fst (verifyAuthenticationResponse demo_helpers
          (demo_options (demo_response ''A'' ''LFF'' ''HLFFB'' [(''userHandle'', JNumber 0)]))
          (demo_heap ''QQ'' 4)) =
     Some (Inr \<lparr>verified = True,
       authenticationInfo =
         \<lparr>newCounter = 5, credentialID = ''QQ'', userVerified = True,
          credentialDeviceType = SingleDevice, credentialBackedUp = False,
          authenticatorExtensionResults = JUndefined, origin = ''https://example.com'',
          rpID = ''example.com''\<rparr>\<rparr>)"
  by (simp add: demo_eval)

text \<open>
  C6, amended. Validation is fail-fast in source order, so each error is thrown exactly
  when its defect is the first one met. For a response that is an object (not \<open>null\<close>
  or \<open>undefined\<close>): the missing-id error if and only if \<open>id\<close> is falsy (absent, or
  empty); else the id-mismatch error if and only if \<open>id\<close> is not \<open>rawId\<close>; else the
  credential-type error if and only if \<open>type\<close> is not \<open>public-key\<close>; else the
  missing-field error if and only if \<open>response.clientDataJSON\<close> is not a string (which
  covers an absent \<open>response\<close>). Once the client data is decoded and its type, challenge
  and origin are accepted, the validator is called on \<open>authenticatorData\<close> as the
  response holds it, and the call throws the encoding error for the authenticator data if
  and only if the validator answers that it is not valid base64url; when the validator
  itself raises an exception, as the package's does on a value that is absent or not a
  string, the call fails with that exception and not with the encoding error. Else the
  same holds of \<open>signature\<close>; else the call throws the encoding error for \<open>userHandle\<close>
  if and only if it is truthy and not a string. None of these errors is thrown anywhere
  else, and a call that returns a record had none of these defects.
\<close>

theorem structural_validation:
  fixes H :: helpers and x :: options and h :: "'z heap"
  defines "out \<equiv> fst (verifyAuthenticationResponse H x h)"
  defines "id' \<equiv> getProp (response x) ''id''"
  defines "rawId \<equiv> getProp (response x) ''rawId''"
  defines "type' \<equiv> getProp (response x) ''type''"
  defines "assertion \<equiv> getProp (response x) ''response''"
  defines "reached \<equiv> (\<exists>L h1. reachEncodingChecks H x h = (Some (Inr L), h1))"
  assumes given: "\<not> nullish (response x)"
  shows
    "(out = Some (Inl MissingCredentialID) \<longleftrightarrow> \<not> truthy id') \<and>
     (out = Some (Inl CredentialIDNotBase64URL) \<longleftrightarrow> truthy id' \<and> \<not> strictEq id' rawId) \<and>
     ((\<exists>t. out = Some (Inl (UnexpectedCredentialType t))) \<longleftrightarrow>
        truthy id' \<and> strictEq id' rawId \<and> type' \<noteq> JString ''public-key'') \<and>
     (out = Some (Inl ClientDataJSONNotString) \<longleftrightarrow>
        truthy id' \<and> strictEq id' rawId \<and> type' = JString ''public-key'' \<and>
        \<not> typeofString (getProp assertion ''clientDataJSON'')) \<and>
     (reached \<longleftrightarrow>
        truthy id' \<and> strictEq id' rawId \<and> type' = JString ''public-key'' \<and>
        (\<exists>cdj cd. getProp assertion ''clientDataJSON'' = JString cdj \<and>
           decodeClientDataJSON H cdj = Inr cd \<and>
           typeAccepted (expectedType x) (cdType cd) \<and>
           challengeAccepted (expectedChallenge x) (callerState h) (cdChallenge cd) \<and>
           originAccepted (expectedOrigin x) (cdOrigin cd))) \<and>
     (out = Some (Inl AuthenticatorDataNotBase64URL) \<longleftrightarrow>
        reached \<and> isBase64URL H (getProp assertion ''authenticatorData'') = Inr False) \<and>
     (\<forall>m. reached \<and> isBase64URL H (getProp assertion ''authenticatorData'') = Inl m \<longrightarrow>
        out = Some (Inl (HelperThrew m))) \<and>
     (out = Some (Inl SignatureNotBase64URL) \<longleftrightarrow>
        reached \<and> isBase64URL H (getProp assertion ''authenticatorData'') = Inr True \<and>
        isBase64URL H (getProp assertion ''signature'') = Inr False) \<and>
     (\<forall>m. reached \<and> isBase64URL H (getProp assertion ''authenticatorData'') = Inr True \<and>
        isBase64URL H (getProp assertion ''signature'') = Inl m \<longrightarrow>
        out = Some (Inl (HelperThrew m))) \<and>
     (out = Some (Inl UserHandleNotString) \<longleftrightarrow>
        reached \<and> isBase64URL H (getProp assertion ''authenticatorData'') = Inr True \<and>
        isBase64URL H (getProp assertion ''signature'') = Inr True \<and>
        truthy (getProp assertion ''userHandle'') \<and>
        \<not> typeofString (getProp assertion ''userHandle'')) \<and>
     (\<forall>res. out = Some (Inr res) \<longrightarrow>
        truthy id' \<and> strictEq id' rawId \<and> type' = JString ''public-key'' \<and>
        typeofString (getProp assertion ''clientDataJSON'') \<and>
        isBase64URL H (getProp assertion ''authenticatorData'') = Inr True \<and>
        isBase64URL H (getProp assertion ''signature'') = Inr True \<and>
        (typeofString (getProp assertion ''userHandle'') \<or>
         \<not> truthy (getProp assertion ''userHandle'')))"
proof -
  note cc = checkCredential_apply[OF given, of h]
  have 1: "out = Some (Inl MissingCredentialID) \<longleftrightarrow> \<not> truthy id'"
    unfolding out_def id'_def
    by (simp add: verify_credentialError credentialError_def cc split: jsval.splits)
  have 2: "out = Some (Inl CredentialIDNotBase64URL) \<longleftrightarrow> truthy id' \<and> \<not> strictEq id' rawId"
    unfolding out_def id'_def rawId_def
    by (simp add: verify_credentialError credentialError_def cc split: jsval.splits)
  have 3: "out = Some (Inl (UnexpectedCredentialType t)) \<longleftrightarrow>
        t = type' \<and> truthy id' \<and> strictEq id' rawId \<and> type' \<noteq> JString ''public-key''" for t
    unfolding out_def id'_def rawId_def type'_def
    by (auto simp: verify_credentialError credentialError_def cc split: jsval.splits)
  have 4: "out = Some (Inl ClientDataJSONNotString) \<longleftrightarrow>
        truthy id' \<and> strictEq id' rawId \<and> type' = JString ''public-key'' \<and>
        \<not> typeofString (getProp assertion ''clientDataJSON'')"
    unfolding out_def id'_def rawId_def type'_def assertion_def
    by (simp add: verify_credentialError credentialError_def cc split: jsval.splits)
  have 5: "reached \<longleftrightarrow>
        truthy id' \<and> strictEq id' rawId \<and> type' = JString ''public-key'' \<and>
        (\<exists>cdj cd. getProp assertion ''clientDataJSON'' = JString cdj \<and>
           decodeClientDataJSON H cdj = Inr cd \<and>
           typeAccepted (expectedType x) (cdType cd) \<and>
           challengeAccepted (expectedChallenge x) (callerState h) (cdChallenge cd) \<and>
           originAccepted (expectedOrigin x) (cdOrigin cd))"
  proof -
    have each: "(\<exists>h1. reachEncodingChecks H x h = (Some (Inr L), h1)) \<longleftrightarrow>
        truthy id' \<and> strictEq id' rawId \<and> type' = JString ''public-key'' \<and>
        assertionResponse L = assertion \<and>
        getProp (assertionResponse L) ''clientDataJSON'' = JString (clientDataString L) \<and>
        decodeClientDataJSON H (clientDataString L) = Inr (clientDataJSON L) \<and>
        typeAccepted (expectedType x) (cdType (clientDataJSON L)) \<and>
        challengeAccepted (expectedChallenge x) (callerState h) (cdChallenge (clientDataJSON L)) \<and>
        originAccepted (expectedOrigin x) (cdOrigin (clientDataJSON L))" for L
      unfolding reachEncodingChecks_iff reachChallengeCheck_iff id'_def rawId_def type'_def
        assertion_def
      using given by blast
    have "reached \<longleftrightarrow> (\<exists>L. \<exists>h1. reachEncodingChecks H x h = (Some (Inr L), h1))"
      unfolding reached_def ..
    also have "\<dots> \<longleftrightarrow> (\<exists>L :: locals1.
        truthy id' \<and> strictEq id' rawId \<and> type' = JString ''public-key'' \<and>
        assertionResponse L = assertion \<and>
        getProp (assertionResponse L) ''clientDataJSON'' = JString (clientDataString L) \<and>
        decodeClientDataJSON H (clientDataString L) = Inr (clientDataJSON L) \<and>
        typeAccepted (expectedType x) (cdType (clientDataJSON L)) \<and>
        challengeAccepted (expectedChallenge x) (callerState h) (cdChallenge (clientDataJSON L)) \<and>
        originAccepted (expectedOrigin x) (cdOrigin (clientDataJSON L)))"
      by (simp only: each)
    also have "\<dots> \<longleftrightarrow>
        truthy id' \<and> strictEq id' rawId \<and> type' = JString ''public-key'' \<and>
        (\<exists>cdj cd. getProp assertion ''clientDataJSON'' = JString cdj \<and>
           decodeClientDataJSON H cdj = Inr cd \<and>
           typeAccepted (expectedType x) (cdType cd) \<and>
           challengeAccepted (expectedChallenge x) (callerState h) (cdChallenge cd) \<and>
           originAccepted (expectedOrigin x) (cdOrigin cd))"
    proof (intro iffI; elim exE conjE)
      fix L
      assume "assertionResponse L = assertion"
        "getProp (assertionResponse L) ''clientDataJSON'' = JString (clientDataString L)"
        "decodeClientDataJSON H (clientDataString L) = Inr (clientDataJSON L)"
        "typeAccepted (expectedType x) (cdType (clientDataJSON L))"
        "challengeAccepted (expectedChallenge x) (callerState h) (cdChallenge (clientDataJSON L))"
        "originAccepted (expectedOrigin x) (cdOrigin (clientDataJSON L))"
        and "truthy id'" "strictEq id' rawId" "type' = JString ''public-key''"
      then show "truthy id' \<and> strictEq id' rawId \<and> type' = JString ''public-key'' \<and>
        (\<exists>cdj cd. getProp assertion ''clientDataJSON'' = JString cdj \<and>
           decodeClientDataJSON H cdj = Inr cd \<and>
           typeAccepted (expectedType x) (cdType cd) \<and>
           challengeAccepted (expectedChallenge x) (callerState h) (cdChallenge cd) \<and>
           originAccepted (expectedOrigin x) (cdOrigin cd))"
        by auto
    next
      fix cdj cd
      assume "getProp assertion ''clientDataJSON'' = JString cdj"
        "decodeClientDataJSON H cdj = Inr cd"
        "typeAccepted (expectedType x) (cdType cd)"
        "challengeAccepted (expectedChallenge x) (callerState h) (cdChallenge cd)"
        "originAccepted (expectedOrigin x) (cdOrigin cd)"
        and "truthy id'" "strictEq id' rawId" "type' = JString ''public-key''"
      then show "\<exists>L :: locals1.
        truthy id' \<and> strictEq id' rawId \<and> type' = JString ''public-key'' \<and>
        assertionResponse L = assertion \<and>
        getProp (assertionResponse L) ''clientDataJSON'' = JString (clientDataString L) \<and>
        decodeClientDataJSON H (clientDataString L) = Inr (clientDataJSON L) \<and>
        typeAccepted (expectedType x) (cdType (clientDataJSON L)) \<and>
        challengeAccepted (expectedChallenge x) (callerState h) (cdChallenge (clientDataJSON L)) \<and>
        originAccepted (expectedOrigin x) (cdOrigin (clientDataJSON L))"
        by (intro exI[of _ "\<lparr>assertionResponse = assertion, clientDataString = cdj,
              clientDataJSON = cd\<rparr>"]) simp
    qed
    finally show ?thesis .
  qed
  have 6: "out = Some (Inl AuthenticatorDataNotBase64URL) \<longleftrightarrow>
        reached \<and> isBase64URL H (getProp assertion ''authenticatorData'') = Inr False"
    unfolding out_def reached_def assertion_def
    by (auto simp: verify_encodingError encodingError_def fst_checkEncodings
        split: sum.splits if_splits)
  have 7: "out = Some (Inl SignatureNotBase64URL) \<longleftrightarrow>
        reached \<and> isBase64URL H (getProp assertion ''authenticatorData'') = Inr True \<and>
        isBase64URL H (getProp assertion ''signature'') = Inr False"
    unfolding out_def reached_def assertion_def
    by (auto simp: verify_encodingError encodingError_def fst_checkEncodings
        split: sum.splits if_splits)
  have 8: "out = Some (Inl UserHandleNotString) \<longleftrightarrow>
        reached \<and> isBase64URL H (getProp assertion ''authenticatorData'') = Inr True \<and>
        isBase64URL H (getProp assertion ''signature'') = Inr True \<and>
        truthy (getProp assertion ''userHandle'') \<and>
        \<not> typeofString (getProp assertion ''userHandle'')"
    unfolding out_def reached_def assertion_def
    by (auto simp: verify_encodingError encodingError_def fst_checkEncodings
        split: sum.splits if_splits)
  have t6: "out = Some (Inl (HelperThrew m))"
    if "reached \<and> isBase64URL H (getProp assertion ''authenticatorData'') = Inl m" for m
    using that unfolding out_def reached_def assertion_def
    by (intro verify_checkEncodings_Inl) (simp add: fst_checkEncodings)
  have t7: "out = Some (Inl (HelperThrew m))"
    if "reached \<and> isBase64URL H (getProp assertion ''authenticatorData'') = Inr True \<and>
        isBase64URL H (getProp assertion ''signature'') = Inl m" for m
    using that unfolding out_def reached_def assertion_def
    by (intro verify_checkEncodings_Inl) (simp add: fst_checkEncodings)
  have 9: "truthy id' \<and> strictEq id' rawId \<and> type' = JString ''public-key'' \<and>
        typeofString (getProp assertion ''clientDataJSON'') \<and>
        isBase64URL H (getProp assertion ''authenticatorData'') = Inr True \<and>
        isBase64URL H (getProp assertion ''signature'') = Inr True \<and>
        (typeofString (getProp assertion ''userHandle'') \<or>
         \<not> truthy (getProp assertion ''userHandle''))"
    if "out = Some (Inr res)" for res
  proof -
    from that have e: "reached"
      "fst (checkEncodings H assertion h) = Some (Inr ())"
      unfolding out_def reached_def assertion_def using verify_Inr_encodings by blast+
    from e(1) 5 have "truthy id' \<and> strictEq id' rawId \<and> type' = JString ''public-key'' \<and>
        typeofString (getProp assertion ''clientDataJSON'')"
      by auto
    moreover from e(2) have "isBase64URL H (getProp assertion ''authenticatorData'') = Inr True \<and>
        isBase64URL H (getProp assertion ''signature'') = Inr True \<and>
        (typeofString (getProp assertion ''userHandle'') \<or>
         \<not> truthy (getProp assertion ''userHandle''))"
      by (auto simp: fst_checkEncodings split: if_splits sum.splits)
    ultimately show ?thesis by blast
  qed
  have t3: "(\<exists>t. out = Some (Inl (UnexpectedCredentialType t))) \<longleftrightarrow>
        truthy id' \<and> strictEq id' rawId \<and> type' \<noteq> JString ''public-key''"
    using 3 by blast
  from 1 2 t3 4 5 6 t6 7 t7 8 9 show ?thesis by blast
qed

theorem structural_validation_witness:
  "\<not> nullish (response (demo_options
       (demo_response ''A'' ''LFF'' ''HLFFB'' [(''userHandle'', JBool True)]))) \<and>
   fst (verifyAuthenticationResponse demo_helpers
          (demo_options (demo_response ''A'' ''LFF'' ''HLFFB'' [(''userHandle'', JBool True)]))
          (demo_heap ''QQ'' 4)) = Some (Inl UserHandleNotString) \<and>
   fst (verifyAuthenticationResponse demo_helpers
          (demo_options (demo_response ''A'' ''L*F'' ''HLFFB'' [])) (demo_heap ''QQ'' 4)) =
     Some (Inl AuthenticatorDataNotBase64URL) \<and>
   fst (verifyAuthenticationResponse demo_helpers
          (demo_options demo_response_without_authenticatorData) (demo_heap ''QQ'' 4)) =
     Some (Inl (HelperThrew ''TypeError: not a string''))"
proof -
  let ?x = "demo_options (demo_response ''A'' ''LFF'' ''HLFFB'' [(''userHandle'', JBool True)])"
  let ?y = "demo_options (demo_response ''A'' ''L*F'' ''HLFFB'' [])"
  let ?z = "demo_options demo_response_without_authenticatorData"
  let ?h = "demo_heap ''QQ'' 4"
  have n: "\<not> nullish (response ?x)" "\<not> nullish (response ?y)" "\<not> nullish (response ?z)"
    by (simp_all add: demo_options_def demo_response_def
        demo_response_without_authenticatorData_def)
  have r: "\<exists>L h1. reachEncodingChecks demo_helpers ?x ?h = (Some (Inr L), h1)"
    "\<exists>L h1. reachEncodingChecks demo_helpers ?y ?h = (Some (Inr L), h1)"
    "\<exists>L h1. reachEncodingChecks demo_helpers ?z ?h = (Some (Inr L), h1)"
    by (simp_all add: demo_eval demo_response_without_authenticatorData_def)
  from structural_validation[OF n(1), of demo_helpers ?h] r(1)
  have 1: "fst (verifyAuthenticationResponse demo_helpers ?x ?h) = Some (Inl UserHandleNotString)"
    by (simp add: demo_options_def demo_response_def demo_helpers_def demo_isBase64URL_def
        demo_letter_def)
  from structural_validation[OF n(2), of demo_helpers ?h] r(2)
  have 2: "fst (verifyAuthenticationResponse demo_helpers ?y ?h) =
      Some (Inl AuthenticatorDataNotBase64URL)"
    by (simp add: demo_options_def demo_response_def demo_helpers_def demo_isBase64URL_def
        demo_letter_def)
  from structural_validation[OF n(3), of demo_helpers ?h] r(3)
  have 3: "fst (verifyAuthenticationResponse demo_helpers ?z ?h) =
      Some (Inl (HelperThrew ''TypeError: not a string''))"
    by (simp add: demo_options_def demo_response_without_authenticatorData_def demo_helpers_def
        demo_isBase64URL_def)
  from n(1) 1 2 3 show ?thesis by simp
qed

section \<open>The caller's challenge verifier\<close>

text \<open>
  C7, as stated. The claim is that a call given a challenge verifier invokes it exactly
  once. A call that fails before the challenge check never invokes it: the response
  below has an \<open>id\<close> that differs from its \<open>rawId\<close>.
\<close>

theorem one_invocation_per_call_counterexample:
  "filter isExpectedChallenge
     (newCalls (verifyAuthenticationResponse demo_helpers
        ((demo_options demo_mismatched_response)
           \<lparr>expectedChallenge := Verifier (\<lambda>c s. (Resolves True, s))\<rparr>)) (demo_heap ''QQ'' 4)) = [] \<and>
   fst (verifyAuthenticationResponse demo_helpers
        ((demo_options demo_mismatched_response)
           \<lparr>expectedChallenge := Verifier (\<lambda>c s. (Resolves True, s))\<rparr>) (demo_heap ''QQ'' 4)) =
     Some (Inl CredentialIDNotBase64URL)"
  by (simp add: newCalls_def demo_mismatched_response_def demo_eval)

text \<open>
  C7, amended. A call given a challenge verifier invokes it at most once: exactly once
  when the call gets as far as the challenge check, with the challenge of the client
  data and in the state the caller was in when the call began, and not at all when the
  call has failed before. The call does not go past the challenge check before the
  verifier's promise settles: when it never settles the call never settles and makes no
  further call; when the verifier throws, the call throws the same; when it answers
  \<open>false\<close> the call throws the challenge error; when it answers \<open>true\<close> the call goes
  on as it does for the matching expected string.
\<close>

theorem challenge_verifier_invocation:
  fixes H :: helpers and x :: options and h :: "'z heap"
  defines "out \<equiv> fst (verifyAuthenticationResponse H x h)"
  defines "made \<equiv> newCalls (verifyAuthenticationResponse H x) h"
  assumes v: "expectedChallenge x = Verifier p"
  shows
    "length (filter isExpectedChallenge made) \<le> 1 \<and>
     (length (filter isExpectedChallenge made) = 1 \<longleftrightarrow>
        (\<exists>L h1. reachChallengeCheck H x h = (Some (Inr L), h1))) \<and>
     (reachChallengeCheck H x h = (Some (Inr L), h1) \<longrightarrow>
        filter isExpectedChallenge made = [Call_expectedChallenge (cdChallenge (clientDataJSON L))] \<and>
        (case fst (p (cdChallenge (clientDataJSON L)) (callerState h)) of
           Resolves b \<Rightarrow>
             if b then out = fst (verifyAuthenticationResponse H
                 (x\<lparr>expectedChallenge := Literal (cdChallenge (clientDataJSON L))\<rparr>) h)
             else out = Some (Inl (ChallengeVerifierReturnedFalse (cdChallenge (clientDataJSON L)))) \<and>
               made = newCalls (reachChallengeCheck H x) h @
                 [Call_expectedChallenge (cdChallenge (clientDataJSON L))]
         | Rejects m \<Rightarrow> out = Some (Inl (VerifierRejected m)) \<and>
               made = newCalls (reachChallengeCheck H x) h @
                 [Call_expectedChallenge (cdChallenge (clientDataJSON L))]
         | NeverSettles \<Rightarrow> out = None \<and>
               made = newCalls (reachChallengeCheck H x) h @
                 [Call_expectedChallenge (cdChallenge (clientDataJSON L))]))"
proof -
  let ?m = "reachChallengeCheck H x"
  have quiet: "filter isExpectedChallenge (newCalls ?m h) = []"
    by (rule filter_none[OF confined_newCalls[OF no_expectedChallenge_reachChallengeCheck]])
  have at: "filter isExpectedChallenge made = [Call_expectedChallenge (cdChallenge (clientDataJSON L))] \<and>
        (case fst (p (cdChallenge (clientDataJSON L)) (callerState h)) of
           Resolves b \<Rightarrow>
             if b then out = fst (verifyAuthenticationResponse H
                 (x\<lparr>expectedChallenge := Literal (cdChallenge (clientDataJSON L))\<rparr>) h)
             else out = Some (Inl (ChallengeVerifierReturnedFalse (cdChallenge (clientDataJSON L)))) \<and>
               made = newCalls ?m h @ [Call_expectedChallenge (cdChallenge (clientDataJSON L))]
         | Rejects m \<Rightarrow> out = Some (Inl (VerifierRejected m)) \<and>
               made = newCalls ?m h @ [Call_expectedChallenge (cdChallenge (clientDataJSON L))]
         | NeverSettles \<Rightarrow> out = None \<and>
               made = newCalls ?m h @ [Call_expectedChallenge (cdChallenge (clientDataJSON L))])"
    if r: "?m h = (Some (Inr L), h1)" for L h1
  proof -
    let ?c = "cdChallenge (clientDataJSON L)"
    let ?x' = "x\<lparr>expectedChallenge := Literal ?c\<rparr>"
    have made: "made = newCalls ?m h @ newCalls (fromChallengeCheck H x L) h1"
      unfolding made_def verify_fromChallengeCheck
      by (rule newCalls_andThen_Inr[OF no_expectedChallenge_reachChallengeCheck
          grows_fromChallengeCheck r])
    from newCalls_fromChallengeCheck_Verifier[OF v, of H L h1] obtain cs where
      cs: "newCalls (fromChallengeCheck H x L) h1 = Call_expectedChallenge ?c # cs"
        "list_all (\<lambda>c. \<not> isExpectedChallenge c) cs"
        "fst (p ?c (callerState h1)) \<noteq> Resolves True \<longrightarrow> cs = []"
      by blast
    have st: "callerState h1 = callerState h"
      using r by (rule reachChallengeCheck_callerState)
    have 1: "filter isExpectedChallenge made = [Call_expectedChallenge ?c]"
      unfolding made using quiet cs by (simp add: filter_none)
    have o: "out = fst (fromChallengeCheck H x L h1)"
      unfolding out_def by (simp add: verify_at_challengeCheck[OF r])
    have r': "reachChallengeCheck H ?x' h = (Some (Inr L), h1)"
      using r by (simp add: reachChallengeCheck_expectedChallenge)
    have lit: "fst (verifyAuthenticationResponse H ?x' h) = fst (fromOriginCheck H x L h1)"
      unfolding verify_at_challengeCheck[OF r']
      by (simp add: fromChallengeCheck_Literal fromOriginCheck_expectedChallenge)
    have log: "fst (fromOriginCheck H x L (h1\<lparr>calls := calls h1 @ [Call_expectedChallenge ?c],
          callerState := snd (p ?c (callerState h1))\<rparr>)) =
        fst (fromOriginCheck H x L h1)"
      by (rule fromOriginCheck_log) simp
    have 2: "out = fst (verifyAuthenticationResponse H ?x' h)"
      if "fst (p ?c (callerState h)) = Resolves True"
      unfolding o lit using that log
      by (simp add: fromChallengeCheck_Verifier[OF v] st)
    have 3: "made = newCalls ?m h @ [Call_expectedChallenge ?c]"
      if "fst (p ?c (callerState h)) \<noteq> Resolves True"
      unfolding made using cs that by (simp add: st)
    show ?thesis
      using 1 2 3 unfolding o
      by (auto simp: fromChallengeCheck_Verifier[OF v] st split: awaited.splits)
  qed
  have stop: "filter isExpectedChallenge made = []" if "\<not> (\<exists>L h1. ?m h = (Some (Inr L), h1))"
  proof -
    from that have "\<And>L. fst (?m h) \<noteq> Some (Inr L)"
      by (cases "?m h") auto
    then have "made = newCalls ?m h"
      unfolding made_def verify_fromChallengeCheck by (rule newCalls_andThen_other)
    with quiet show ?thesis by simp
  qed
  show ?thesis
  proof (cases "\<exists>L h1. ?m h = (Some (Inr L), h1)")
    case True
    then obtain L' h1' where r: "?m h = (Some (Inr L'), h1')" by blast
    from at[OF r] have "length (filter isExpectedChallenge made) = 1" by simp
    with True at show ?thesis by auto
  next
    case False
    with stop show ?thesis by auto
  qed
qed

theorem challenge_verifier_invocation_witness:
  "expectedChallenge ((demo_options (demo_response ''A'' ''LFF'' ''HLFFB'' []))
       \<lparr>expectedChallenge := Verifier (\<lambda>c s. (Resolves (c = ''abc123''), s))\<rparr>) =
     Verifier (\<lambda>c s. (Resolves (c = ''abc123''), s)) \<and>
   filter isExpectedChallenge
     (newCalls (verifyAuthenticationResponse demo_helpers
        ((demo_options (demo_response ''A'' ''LFF'' ''HLFFB'' []))
           \<lparr>expectedChallenge := Verifier (\<lambda>c s. (Resolves (c = ''abc123''), s))\<rparr>))
        (demo_heap ''QQ'' 4)) = [Call_expectedChallenge ''abc123''] \<and>
   fst (verifyAuthenticationResponse demo_helpers
        ((demo_options (demo_response ''A'' ''LFF'' ''HLFFB'' []))
           \<lparr>expectedChallenge := Verifier (\<lambda>c s. (Resolves (c = ''abc123''), s))\<rparr>)
        (demo_heap ''QQ'' 4)) =
     fst (verifyAuthenticationResponse demo_helpers
        (demo_options (demo_response ''A'' ''LFF'' ''HLFFB'' [])) (demo_heap ''QQ'' 4))"
proof -
  let ?p = "\<lambda>c (s :: jsval). (Resolves (c = ''abc123''), s)"
  let ?x = "(demo_options (demo_response ''A'' ''LFF'' ''HLFFB'' []))\<lparr>expectedChallenge := Verifier ?p\<rparr>"
  let ?h = "demo_heap ''QQ'' 4"
  have v: "expectedChallenge ?x = Verifier ?p" by simp
  have "\<exists>L h1. reachChallengeCheck demo_helpers ?x ?h = (Some (Inr L), h1) \<and>
      cdChallenge (clientDataJSON L) = ''abc123''"
    by (simp add: demo_eval)
  then obtain L h1 where
    r: "reachChallengeCheck demo_helpers ?x ?h = (Some (Inr L), h1)" and
    c: "cdChallenge (clientDataJSON L) = ''abc123''"
    by blast
  have l: "?x\<lparr>expectedChallenge := Literal ''abc123''\<rparr> =
      demo_options (demo_response ''A'' ''LFF'' ''HLFFB'' [])"
    by (simp add: demo_options_def)
  from challenge_verifier_invocation[OF v, of demo_helpers ?h L h1] r c l v
  show ?thesis by simp
qed

section \<open>The caller's credential\<close>

text \<open>
  C8. Whether a call returns, throws or never settles, the caller's credential object is
  after the call what it was before: its id, public key and counter, and whatever else
  the caller keeps in it. The call reads only the id, the public key and the counter:
  run with two credential objects that agree in these three fields, the caller being in
  the same state, it has the same outcome and makes the same calls. The new counter reaches the caller only in the
  record returned.
\<close>

theorem credential_not_mutated:
  fixes H :: helpers and x :: options and h :: "'y heap" and k :: "'z heap"
  shows
    "credential (snd (verifyAuthenticationResponse H x h)) = credential h \<and>
     (sameFields (credential h) (credential k) \<and> callerState h = callerState k \<longrightarrow>
        fst (verifyAuthenticationResponse H x h) = fst (verifyAuthenticationResponse H x k) \<and>
        newCalls (verifyAuthenticationResponse H x) h = newCalls (verifyAuthenticationResponse H x) k)"
proof (intro conjI impI)
  show "credential (snd (verifyAuthenticationResponse H x h)) = credential h"
    by (rule confined_credential[OF grows_verify])
next
  assume a: "sameFields (credential h) (credential k) \<and> callerState h = callerState k"
  then have s: "sameFields (credential h) (credential k)"
    and st: "callerState h = callerState k"
    by simp_all
  from s st show "fst (verifyAuthenticationResponse H x h) = fst (verifyAuthenticationResponse H x k)"
    by (rule same_outcome)
  have "sameKeyAndCounter (credential h) (credential k)"
    using s by (simp add: sameFields_def sameKeyAndCounter_def)
  then show "newCalls (verifyAuthenticationResponse H x) h =
      newCalls (verifyAuthenticationResponse H x) k"
    using st by (rule related_newCalls[OF related_verify])
qed

theorem credential_not_mutated_witness:
  "sameFields (credential (demo_heap ''QQ'' 4)) (credential (demo_heap_with_transports ''QQ'' 4)) \<and>
   callerState (demo_heap ''QQ'' 4) = callerState (demo_heap_with_transports ''QQ'' 4) \<and>
   credential (snd (verifyAuthenticationResponse demo_helpers
       (demo_options (demo_response ''A'' ''LFF'' ''HLFFB'' [])) (demo_heap_with_transports ''QQ'' 4))) =
     \<lparr>credID = ''QQ'', credPublicKey = [7], credCounter = 4, \<dots> = [''usb'', ''nfc'']\<rparr> \<and>
   fst (verifyAuthenticationResponse demo_helpers
       (demo_options (demo_response ''A'' ''LFF'' ''HLFFB'' [])) (demo_heap_with_transports ''QQ'' 4)) =
     Some (Inr \<lparr>verified = True,
       authenticationInfo =
         \<lparr>newCounter = 5, credentialID = ''QQ'', userVerified = True,
          credentialDeviceType = SingleDevice, credentialBackedUp = False,
          authenticatorExtensionResults = JUndefined, origin = ''https://example.com'',
          rpID = ''example.com''\<rparr>\<rparr>)"
proof -
  let ?x = "demo_options (demo_response ''A'' ''LFF'' ''HLFFB'' [])"
  have s: "sameFields (credential (demo_heap ''QQ'' 4)) (credential (demo_heap_with_transports ''QQ'' 4))"
    by (simp add: sameFields_def demo_heap_def demo_heap_with_transports_def)
  have t: "callerState (demo_heap ''QQ'' 4) = callerState (demo_heap_with_transports ''QQ'' 4)"
    by (simp add: demo_heap_def demo_heap_with_transports_def)
  have a: "fst (verifyAuthenticationResponse demo_helpers ?x (demo_heap ''QQ'' 4)) =
     Some (Inr \<lparr>verified = True,
       authenticationInfo =
         \<lparr>newCounter = 5, credentialID = ''QQ'', userVerified = True,
          credentialDeviceType = SingleDevice, credentialBackedUp = False,
          authenticatorExtensionResults = JUndefined, origin = ''https://example.com'',
          rpID = ''example.com''\<rparr>\<rparr>)"
    by (simp add: demo_eval)
  from credential_not_mutated[of demo_helpers ?x "demo_heap_with_transports ''QQ'' 4" "demo_heap ''QQ'' 4"]
       credential_not_mutated[of demo_helpers ?x "demo_heap ''QQ'' 4" "demo_heap_with_transports ''QQ'' 4"]
       s t a
  show ?thesis
    by (simp add: demo_heap_with_transports_def)
qed

section \<open>Determinism\<close>

text \<open>
  C9. With the expected challenge given as a string, a call is deterministic. A run of
  the call has the outcome of any other run, the same error or the same record, and
  makes the same calls, whatever state the caller is in by then, whatever has been
  logged before, and whatever else the credential object holds beside the same id,
  public key and counter. So has, in particular, a second run made in the state the
  first run left; and the call leaves the caller's state as it found it. Of the helpers
  this asks that they answer in the second run the calls made in the first as they
  answered them then, which pure helpers do: the outcome is a function of the input,
  of the three fields of the credential and of the helpers' answers, and of nothing
  else. The expected challenge has to be a string for this: with a caller's function
  that accepts a challenge once, the second run of a call throws where the first
  returned a record.
\<close>

theorem deterministic:
  fixes H H' :: helpers and x :: options and h :: "'y heap" and k :: "'z heap"
  assumes "expectedChallenge x = Literal c"
  shows
    "(sameFields (credential k) (credential h) \<and>
      list_all (sameAnswer H H') (newCalls (verifyAuthenticationResponse H x) h) \<longrightarrow>
        fst (verifyAuthenticationResponse H' x k) = fst (verifyAuthenticationResponse H x h) \<and>
        newCalls (verifyAuthenticationResponse H' x) k =
          newCalls (verifyAuthenticationResponse H x) h) \<and>
     (sameFields (credential k) (credential h) \<longrightarrow>
        fst (verifyAuthenticationResponse H x k) = fst (verifyAuthenticationResponse H x h) \<and>
        newCalls (verifyAuthenticationResponse H x) k =
          newCalls (verifyAuthenticationResponse H x) h) \<and>
     fst (verifyAuthenticationResponse H x (snd (verifyAuthenticationResponse H x h))) =
       fst (verifyAuthenticationResponse H x h) \<and>
     newCalls (verifyAuthenticationResponse H x) (snd (verifyAuthenticationResponse H x h)) =
       newCalls (verifyAuthenticationResponse H x) h \<and>
     callerState (snd (verifyAuthenticationResponse H x h)) = callerState h \<and>
     (\<exists>G y (g :: unit heap) p r.
        expectedChallenge y = Verifier p \<and>
        fst (verifyAuthenticationResponse G y g) = Some (Inr r) \<and>
        fst (verifyAuthenticationResponse G y (snd (verifyAuthenticationResponse G y g))) =
          Some (Inl (ChallengeVerifierReturnedFalse ''abc123'')))"
proof -
  let ?v = "verifyAuthenticationResponse H x"
  let ?v' = "verifyAuthenticationResponse H' x"
  let ?h' = "snd (?v h)"
  have 1: "fst (?v k) = fst (?v h) \<and> newCalls ?v k = newCalls ?v h"
    if "sameFields (credential k) (credential h)"
    using assms that by (rule literal_runs_agree)
  have 0: "fst (?v' k) = fst (?v h) \<and> newCalls ?v' k = newCalls ?v h"
    if s: "sameFields (credential k) (credential h)"
      and a: "list_all (sameAnswer H H') (newCalls ?v h)"
  proof -
    have e: "?v' h = ?v h" using a by (rule same_answers_same_run)
    have "fst (?v' k) = fst (?v' h) \<and> newCalls ?v' k = newCalls ?v' h"
      using assms s by (rule literal_runs_agree)
    then show ?thesis by (simp add: e newCalls_def)
  qed
  have "credential ?h' = credential h"
    by (rule confined_credential[OF grows_verify])
  then have "sameFields (credential ?h') (credential h)"
    by (simp add: sameFields_def)
  with assms have 2: "fst (?v ?h') = fst (?v h) \<and> newCalls ?v ?h' = newCalls ?v h"
    by (rule literal_runs_agree)
  have 3: "callerState ?h' = callerState h"
    by (rule stateless_callerState[OF stateless_verify[OF assms]])
  let ?y = "(demo_options (demo_response ''A'' ''LFF'' ''HLFFB'' []))
      \<lparr>expectedChallenge := Verifier demo_once\<rparr>"
  let ?w = "verifyAuthenticationResponse demo_helpers ?y"
  have a: "expectedChallenge ?y = Verifier demo_once" by simp
  have b: "\<exists>r. fst (?w (demo_heap ''QQ'' 4)) = Some (Inr r)"
    by (simp add: demo_eval)
  have c: "fst (?w (snd (?w (demo_heap ''QQ'' 4)))) =
      Some (Inl (ChallengeVerifierReturnedFalse ''abc123''))"
    by (simp add: demo_eval)
  from a b c have 4: "\<exists>G y (g :: unit heap) p r.
        expectedChallenge y = Verifier p \<and>
        fst (verifyAuthenticationResponse G y g) = Some (Inr r) \<and>
        fst (verifyAuthenticationResponse G y (snd (verifyAuthenticationResponse G y g))) =
          Some (Inl (ChallengeVerifierReturnedFalse ''abc123''))"
    by blast
  from 0 1 2 3 4 show ?thesis by blast
qed

theorem deterministic_witness:
  "expectedChallenge (demo_options (demo_response ''A'' ''LFF'' ''HLFFB'' [])) = Literal ''abc123'' \<and>
   sameFields
     (credential ((demo_heap_with_transports ''QQ'' 4)\<lparr>callerState := JBool True\<rparr>))
     (credential (demo_heap ''QQ'' 4)) \<and>
   list_all
     (sameAnswer demo_helpers
        (demo_helpers\<lparr>toHash := \<lambda>xs. if xs = [] then [] else demo_toHash xs\<rparr>))
     (newCalls (verifyAuthenticationResponse demo_helpers
        (demo_options (demo_response ''A'' ''LFF'' ''HLFFB'' []))) (demo_heap ''QQ'' 4)) \<and>
   fst (verifyAuthenticationResponse
          (demo_helpers\<lparr>toHash := \<lambda>xs. if xs = [] then [] else demo_toHash xs\<rparr>)
          (demo_options (demo_response ''A'' ''LFF'' ''HLFFB'' []))
          ((demo_heap_with_transports ''QQ'' 4)\<lparr>callerState := JBool True\<rparr>)) =
     Some (Inr \<lparr>verified = True,
       authenticationInfo =
         \<lparr>newCounter = 5, credentialID = ''QQ'', userVerified = True,
          credentialDeviceType = SingleDevice, credentialBackedUp = False,
          authenticatorExtensionResults = JUndefined, origin = ''https://example.com'',
          rpID = ''example.com''\<rparr>\<rparr>) \<and>
   fst (verifyAuthenticationResponse demo_helpers
          (demo_options (demo_response ''A'' ''LFF'' ''HLFFB'' []))
          (snd (verifyAuthenticationResponse demo_helpers
             (demo_options (demo_response ''A'' ''LFF'' ''HLFFB'' [])) (demo_heap ''QQ'' 4)))) =
     Some (Inr \<lparr>verified = True,
       authenticationInfo =
         \<lparr>newCounter = 5, credentialID = ''QQ'', userVerified = True,
          credentialDeviceType = SingleDevice, credentialBackedUp = False,
          authenticatorExtensionResults = JUndefined, origin = ''https://example.com'',
          rpID = ''example.com''\<rparr>\<rparr>)"
proof -
  let ?x = "demo_options (demo_response ''A'' ''LFF'' ''HLFFB'' [])"
  let ?k = "(demo_heap_with_transports ''QQ'' 4)\<lparr>callerState := JBool True\<rparr>"
  let ?G = "demo_helpers\<lparr>toHash := \<lambda>xs. if xs = [] then [] else demo_toHash xs\<rparr>"
  have l: "expectedChallenge ?x = Literal ''abc123''"
    by (simp add: demo_options_def)
  have s: "sameFields (credential ?k) (credential (demo_heap ''QQ'' 4))"
    by (simp add: sameFields_def demo_heap_def demo_heap_with_transports_def)
  have g: "list_all (sameAnswer demo_helpers ?G)
      (newCalls (verifyAuthenticationResponse demo_helpers ?x) (demo_heap ''QQ'' 4))"
    by (simp add: newCalls_def demo_eval)
  have a: "fst (verifyAuthenticationResponse demo_helpers ?x (demo_heap ''QQ'' 4)) =
     Some (Inr \<lparr>verified = True,
       authenticationInfo =
         \<lparr>newCounter = 5, credentialID = ''QQ'', userVerified = True,
          credentialDeviceType = SingleDevice, credentialBackedUp = False,
          authenticatorExtensionResults = JUndefined, origin = ''https://example.com'',
          rpID = ''example.com''\<rparr>\<rparr>)"
    by (simp add: demo_eval)
  from deterministic[OF l, of ?k "demo_heap ''QQ'' 4" demo_helpers ?G] l s g a show ?thesis
    by simp
qed

section \<open>The credential id reported\<close>

text \<open>
  C10. The \<open>credentialID\<close> of a record returned is the id of the caller's credential.
  The id of the caller's credential is compared with nothing: the same call with another
  id in the credential has the same outcome, but for the \<open>credentialID\<close> reported. So a
  record, with \<open>verified\<close> true, can be returned for a response whose id is not the id
  of the credential supplied.
\<close>

theorem credentialID_is_the_callers:
  fixes H :: helpers and x :: options and h :: "'z heap"
  shows
    "(fst (verifyAuthenticationResponse H x h) = Some (Inr r) \<longrightarrow>
        credentialID (authenticationInfo r) = credID (credential h)) \<and>
     fst (verifyAuthenticationResponse H x (h\<lparr>credential := (credential h)\<lparr>credID := i\<rparr>\<rparr>)) =
       map_option (map_sum id
           (\<lambda>r. r\<lparr>authenticationInfo := (authenticationInfo r)\<lparr>credentialID := i\<rparr>\<rparr>))
         (fst (verifyAuthenticationResponse H x h)) \<and>
     (\<exists>H' x' (h' :: unit heap) r'.
        getProp (response x') ''id'' \<noteq> JString (credID (credential h')) \<and>
        fst (verifyAuthenticationResponse H' x' h') = Some (Inr r') \<and> verified r')"
proof (intro conjI impI)
  assume "fst (verifyAuthenticationResponse H x h) = Some (Inr r)"
  then show "credentialID (authenticationInfo r) = credID (credential h)"
    by (rule result_credentialID)
next
  let ?k = "h\<lparr>credential := (credential h)\<lparr>credID := i\<rparr>\<rparr>"
  let ?v = "verifyAuthenticationResponse H x"
  have kc: "sameKeyAndCounter (credential h) (credential ?k)"
    by (simp add: sameKeyAndCounter_def)
  have rel: "rel_option (rel_sum (=) sameButID) (fst (?v h)) (fst (?v ?k))"
    by (rule related_outcome[OF related_verify kc]) simp
  show "fst (?v ?k) =
       map_option (map_sum id
           (\<lambda>r. r\<lparr>authenticationInfo := (authenticationInfo r)\<lparr>credentialID := i\<rparr>\<rparr>))
         (fst (?v h))"
  proof (cases "fst (?v h)")
    case None
    with rel show ?thesis by (cases "fst (?v ?k)") auto
  next
    case (Some u)
    with rel obtain w where w: "fst (?v ?k) = Some w" and uw: "rel_sum (=) sameButID u w"
      by (cases "fst (?v ?k)") auto
    show ?thesis
    proof (cases u)
      case (Inl e)
      with uw Some w show ?thesis by (cases w) auto
    next
      case (Inr r)
      with uw obtain r' where r': "w = Inr r'" and sb: "sameButID r r'" by (cases w) auto
      have "credentialID (authenticationInfo r') = credID (credential ?k)"
        using result_credentialID w r' by blast
      with sb have "r' = r\<lparr>authenticationInfo := (authenticationInfo r)\<lparr>credentialID := i\<rparr>\<rparr>"
        by (simp add: sameButID_def)
      with Some Inr w r' show ?thesis by simp
    qed
  qed
next
  show "\<exists>H' x' (h' :: unit heap) r'.
        getProp (response x') ''id'' \<noteq> JString (credID (credential h')) \<and>
        fst (verifyAuthenticationResponse H' x' h') = Some (Inr r') \<and> verified r'"
    by (intro exI[of _ demo_helpers]
          exI[of _ "demo_options (demo_response ''A'' ''LFF'' ''HLFFB'' [])"]
          exI[of _ "demo_heap ''ZZ'' 4"])
      (simp add: demo_eval)
qed

theorem credentialID_is_the_callers_witness:
  "fst (verifyAuthenticationResponse demo_helpers
          (demo_options (demo_response ''A'' ''LFF'' ''HLFFB'' [])) (demo_heap ''ZZ'' 4)) =
     Some (Inr \<lparr>verified = True,
       authenticationInfo =
         \<lparr>newCounter = 5, credentialID = ''ZZ'', userVerified = True,
          credentialDeviceType = SingleDevice, credentialBackedUp = False,
          authenticatorExtensionResults = JUndefined, origin = ''https://example.com'',
          rpID = ''example.com''\<rparr>\<rparr>) \<and>
   getProp (response (demo_options (demo_response ''A'' ''LFF'' ''HLFFB'' []))) ''id'' = JString ''QQ'' \<and>
   credID (credential (demo_heap ''ZZ'' 4)) = ''ZZ''"
proof -
  let ?x = "demo_options (demo_response ''A'' ''LFF'' ''HLFFB'' [])"
  have a: "fst (verifyAuthenticationResponse demo_helpers ?x (demo_heap ''QQ'' 4)) =
     Some (Inr \<lparr>verified = True,
       authenticationInfo =
         \<lparr>newCounter = 5, credentialID = ''QQ'', userVerified = True,
          credentialDeviceType = SingleDevice, credentialBackedUp = False,
          authenticatorExtensionResults = JUndefined, origin = ''https://example.com'',
          rpID = ''example.com''\<rparr>\<rparr>)"
    by (simp add: demo_eval)
  have h: "(demo_heap ''QQ'' 4)\<lparr>credential := (credential (demo_heap ''QQ'' 4))\<lparr>credID := ''ZZ''\<rparr>\<rparr> =
      demo_heap ''ZZ'' 4"
    by (simp add: demo_heap_def)
  from credentialID_is_the_callers[of demo_helpers ?x "demo_heap ''QQ'' 4" _ "''ZZ''"] a h
  show ?thesis
    by (simp add: demo_options_def demo_response_def demo_heap_def)
qed

end
